theory Spec2Isabelle
  imports Main "HOL-Library.Word"
begin

section \<open>JavaScript strings\<close>

text \<open>
  A JavaScript string is a sequence of UTF-16 code units; \<^verbatim>\<open>.length\<close> counts code units.
  \<^verbatim>\<open>String.prototype.trim\<close> removes the ECMAScript WhiteSpace and LineTerminator code
  points from both ends. All of them lie in the Basic Multilingual Plane, so each is one
  code unit.
\<close>

type_synonym code_unit = "16 word"
type_synonym js_string = "code_unit list"

definition str :: "string \<Rightarrow> js_string" where
  "str cs = map (\<lambda>c. of_nat (of_char c)) cs"

definition isWhiteSpace :: "code_unit \<Rightarrow> bool" where
  "isWhiteSpace c = (c \<in> set [0x0009, 0x000A, 0x000B, 0x000C, 0x000D, 0x0020, 0x00A0, 0x1680,
      0x2000, 0x2001, 0x2002, 0x2003, 0x2004, 0x2005, 0x2006, 0x2007, 0x2008, 0x2009, 0x200A,
      0x2028, 0x2029, 0x202F, 0x205F, 0x3000, 0xFEFF])"

definition trim :: "js_string \<Rightarrow> js_string" where
  "trim s = rev (dropWhile isWhiteSpace (rev (dropWhile isWhiteSpace s)))"

section \<open>The page: script state, elements, document and host\<close>

text \<open>
  \<^verbatim>\<open>document.getElementById\<close> returns \<^verbatim>\<open>null\<close> for a missing element, and the script
  guards most uses, so every element of the \<^verbatim>\<open>elements\<close> table is optional. An element
  carries the properties the script reads or writes.
\<close>

datatype js_error = TypeError | QuotaExceededError

record label_el =
  textContent :: js_string
  loading :: bool
  animation :: js_string

text \<open>
  \<^verbatim>\<open>errorMessages\<close> lists the texts of the \<^verbatim>\<open>.error-message\<close> elements below the input's
  parent node in document order; \<open>None\<close> when the input has no parent node.
\<close>

record input_el =
  input_value :: js_string
  borderColor :: js_string
  boxShadow :: js_string
  errorMessages :: "js_string list option"

record button_el =
  disabled :: bool
  btn_loading :: bool

record modal_el =
  active :: bool

record card_el =
  celebration :: bool
  success :: bool

datatype banner_kind = SuccessBanner | ErrorBanner

record notification =
  kind :: banner_kind
  message :: js_string
  sliding_out :: bool

text \<open>
  \<^verbatim>\<open>localStorage\<close>: \<^verbatim>\<open>getItem\<close> returns \<^verbatim>\<open>null\<close> for a missing key; \<^verbatim>\<open>setItem\<close> throws
  a \<^verbatim>\<open>QuotaExceededError\<close> when the host refuses the write.
\<close>

record storage =
  items :: "js_string \<rightharpoonup> js_string"
  quota_exceeded :: bool

definition getItem :: "storage \<Rightarrow> js_string \<Rightarrow> js_string option" where
  "getItem st k = items st k"

definition setItem :: "storage \<Rightarrow> js_string \<Rightarrow> js_string \<Rightarrow> js_error + storage" where
  "setItem st k v =
     (if quota_exceeded st then Inl QuotaExceededError
      else Inr (st\<lparr>items := (items st)(k \<mapsto> v)\<rparr>))"

datatype focus_target = NameInput | ChangeNameBtn | Elsewhere

text \<open>The callbacks the script hands to \<^verbatim>\<open>setTimeout\<close>; a node is named by its number.\<close>

datatype timer_action =
    SetLabel js_string
  | EndAnimation
  | RemoveAnnouncement nat
  | HideSuccess nat
  | RemoveNotification nat
  | ResizeLater

text \<open>
  \<^verbatim>\<open>cake\<close> holds, for each \<^verbatim>\<open>animate\<close> element below the cake, how often
  \<^verbatim>\<open>beginElement\<close> has been called on it. \<^verbatim>\<open>messageSection\<close> holds its
  \<^verbatim>\<open>.message-card\<close> child, if it has one. \<^verbatim>\<open>timers\<close> holds the pending timeouts with
  their due times, in the order they were set.
\<close>

record app =
  currentName :: js_string
  isAnimating :: bool
  recipientName :: "label_el option"
  changeNameBtn :: bool
  playAnimationBtn :: "button_el option"
  nameModal :: "modal_el option"
  nameInput :: "input_el option"
  saveNameBtn :: "button_el option"
  cancelBtn :: bool
  closeModal_el :: bool
  messageSection :: "card_el option option"
  cake :: "nat list option"
  body_overflow :: js_string
  focused :: focus_target
  announcements :: "(nat \<times> js_string) list"
  notifications :: "(nat \<times> notification) list"
  next_node :: nat
  localStorage :: storage
  clock :: nat
  timers :: "(nat \<times> timer_action) list"

definition storage_key :: js_string where
  "storage_key = str ''birthdayRecipientName''"

section \<open>The script's functions\<close>

definition setTimeout :: "timer_action \<Rightarrow> nat \<Rightarrow> app \<Rightarrow> app" where
  "setTimeout a delay s = s\<lparr>timers := timers s @ [(clock s + delay, a)]\<rparr>"

definition announceToScreenReader :: "js_string \<Rightarrow> app \<Rightarrow> app" where
  "announceToScreenReader msg s =
     setTimeout (RemoveAnnouncement (next_node s)) 1000
       (s\<lparr>announcements := announcements s @ [(next_node s, msg)],
          next_node := Suc (next_node s)\<rparr>)"

definition updateDisplayedName :: "js_string \<Rightarrow> app \<Rightarrow> app" where
  "updateDisplayedName name s =
     (case recipientName s of
        None \<Rightarrow> s
      | Some l \<Rightarrow> setTimeout (SetLabel name) 150 (s\<lparr>recipientName := Some (l\<lparr>loading := True\<rparr>)\<rparr>))"

definition loadSavedName :: "app \<Rightarrow> app" where
  "loadSavedName s =
     (case getItem (localStorage s) storage_key of
        None \<Rightarrow> s
      | Some savedName \<Rightarrow>
          if savedName \<noteq> [] \<and> trim savedName \<noteq> []
          then updateDisplayedName (trim savedName) (s\<lparr>currentName := trim savedName\<rparr>)
          else s)"

text \<open>
  Modelled from the spec: the markup that declares \<^verbatim>\<open>nameInput\<close> is not among the
  sources; the specification calls it an editable text field, and the script saves on
  Enter and calls \<^verbatim>\<open>select()\<close> on it. Assigning to the \<^verbatim>\<open>value\<close> of such a
  single-line input stores the string with its line feeds and carriage returns removed.
\<close>

definition strip_newlines :: "js_string \<Rightarrow> js_string" where
  "strip_newlines v = filter (\<lambda>c. c \<noteq> 0x000A \<and> c \<noteq> 0x000D) v"

definition openModal :: "app \<Rightarrow> app" where
  "openModal s =
     (case nameModal s of
        None \<Rightarrow> s
      | Some m \<Rightarrow>
         (case nameInput s of
            None \<Rightarrow> s
          | Some i \<Rightarrow>
              announceToScreenReader (str ''Name change dialog opened'')
                (s\<lparr>nameInput := Some (i\<lparr>input_value := strip_newlines (currentName s)\<rparr>),
                   nameModal := Some (m\<lparr>active := True\<rparr>),
                   focused := NameInput,
                   body_overflow := str ''hidden''\<rparr>)))"

definition closeModal :: "app \<Rightarrow> app" where
  "closeModal s =
     (case nameModal s of
        None \<Rightarrow> s
      | Some m \<Rightarrow>
          announceToScreenReader (str ''Name change dialog closed'')
            (s\<lparr>nameModal := Some (m\<lparr>active := False\<rparr>),
               body_overflow := [],
               focused := (if changeNameBtn s then ChangeNameBtn else focused s)\<rparr>))"

definition showInputError :: "js_string \<Rightarrow> app \<Rightarrow> app" where
  "showInputError msg s =
     (case nameInput s of
        None \<Rightarrow> s
      | Some i \<Rightarrow>
          announceToScreenReader (str ''Error: '' @ msg)
            (s\<lparr>nameInput := Some (i\<lparr>borderColor := str ''var(--error-500)'',
                                     boxShadow := str ''0 0 0 3px rgba(239, 68, 68, 0.1)'',
                                     errorMessages :=
                                       map_option (\<lambda>es. drop 1 es @ [msg]) (errorMessages i)\<rparr>)\<rparr>))"

definition clearInputError :: "app \<Rightarrow> app" where
  "clearInputError s =
     (case nameInput s of
        None \<Rightarrow> s
      | Some i \<Rightarrow>
          s\<lparr>nameInput := Some (i\<lparr>borderColor := [], boxShadow := [],
                                  errorMessages := map_option (drop 1) (errorMessages i)\<rparr>)\<rparr>)"

definition showSuccessMessage :: "js_string \<Rightarrow> app \<Rightarrow> app" where
  "showSuccessMessage msg s =
     (case messageSection s of
        None \<Rightarrow> s
      | Some None \<Rightarrow> s
      | Some (Some messageCard) \<Rightarrow>
          setTimeout (HideSuccess (next_node s)) 3000
            (s\<lparr>messageSection := Some (Some (messageCard\<lparr>success := True\<rparr>)),
               notifications := notifications s @
                 [(next_node s, \<lparr>kind = SuccessBanner, message = msg, sliding_out = False\<rparr>)],
               next_node := Suc (next_node s)\<rparr>))"

definition empty_name_msg :: js_string where
  "empty_name_msg = str ''Please enter a valid name''"

definition too_long_msg :: js_string where
  "too_long_msg = str ''Name must be 20 characters or less''"

definition saveName :: "app \<Rightarrow> js_error option \<times> app" where
  "saveName s =
     (case nameInput s of
        None \<Rightarrow> (None, s)
      | Some i \<Rightarrow>
          let newName = trim (input_value i) in
          if newName = [] then (None, showInputError empty_name_msg s)
          else if length newName > 20 then (None, showInputError too_long_msg s)
          else
            let s1 = updateDisplayedName newName (s\<lparr>currentName := newName\<rparr>) in
            (case setItem (localStorage s1) storage_key newName of
               Inl e \<Rightarrow> (Some e, s1)
             | Inr st \<Rightarrow>
                 (None,
                  announceToScreenReader
                    (str ''Birthday person's name changed to '' @ newName)
                    (showSuccessMessage
                       (str ''Name updated to '' @ [0x22] @ newName @ [0x22] @ str ''!'')
                       (closeModal (s1\<lparr>localStorage := st\<rparr>))))))"

definition replayAnimation :: "app \<Rightarrow> js_error option \<times> app" where
  "replayAnimation s =
     (if isAnimating s \<or> cake s = None then (None, s)
      else
        let s1 = s\<lparr>isAnimating := True\<rparr> in
        (case playAnimationBtn s1 of
           None \<Rightarrow> (Some TypeError, s1)
         | Some b \<Rightarrow>
             (None,
              announceToScreenReader (str ''Cake animation started'')
                (setTimeout EndAnimation 4000
                   (s1\<lparr>playAnimationBtn := Some (b\<lparr>disabled := True, btn_loading := True\<rparr>),
                       cake := map_option (map Suc) (cake s1)\<rparr>)))))"

definition validateInput :: "app \<Rightarrow> app" where
  "validateInput s =
     (case nameInput s of
        None \<Rightarrow> s
      | Some i \<Rightarrow>
         (case saveNameBtn s of
            None \<Rightarrow> s
          | Some saveBtn \<Rightarrow>
              if trim (input_value i) \<noteq> [] \<and> length (input_value i) \<le> 20
              then clearInputError (s\<lparr>saveNameBtn := Some (saveBtn\<lparr>disabled := False\<rparr>)\<rparr>)
              else
                let s1 = s\<lparr>saveNameBtn := Some (saveBtn\<lparr>disabled := True\<rparr>)\<rparr> in
                if length (input_value i) > 20 then showInputError too_long_msg s1 else s1))"

datatype key = Escape | Enter | KeyE | KeyR | OtherKey

definition modal_is_active :: "app \<Rightarrow> bool" where
  "modal_is_active s = (case nameModal s of None \<Rightarrow> False | Some m \<Rightarrow> active m)"

definition handleKeyboardNavigation :: "key \<Rightarrow> bool \<Rightarrow> app \<Rightarrow> js_error option \<times> app" where
  "handleKeyboardNavigation k ctrlOrMeta s =
     (let s1 = (if k = Escape \<and> modal_is_active s then closeModal s else s) in
      if ctrlOrMeta
      then (case k of
              KeyE \<Rightarrow> (None, openModal s1)
            | KeyR \<Rightarrow> replayAnimation s1
            | _ \<Rightarrow> (None, s1))
      else (None, s1))"

text \<open>
  \<^verbatim>\<open>debounce(handleResize, 250)\<close>: each call cancels the pending call of \<^verbatim>\<open>later\<close>, the
  only timeout the script ever clears, and sets a new one.
\<close>

definition debounced_handleResize :: "app \<Rightarrow> app" where
  "debounced_handleResize s =
     setTimeout ResizeLater 250 (s\<lparr>timers := filter (\<lambda>t. snd t \<noteq> ResizeLater) (timers s)\<rparr>)"

definition init :: "app \<Rightarrow> js_error option \<times> app" where
  "init s =
     (let s1 = loadSavedName s in
      case messageSection s1 of
        None \<Rightarrow> (Some TypeError, s1)
      | Some None \<Rightarrow> (None, s1)
      | Some (Some messageCard) \<Rightarrow>
          (None, s1\<lparr>messageSection := Some (Some (messageCard\<lparr>celebration := True\<rparr>))\<rparr>))"

section \<open>Timers, the global error listener and the event loop\<close>

text \<open>
  The listener on the window's \<^verbatim>\<open>error\<close> event: an exception that leaves a handler or a
  timer callback ends that handler where it is and is reported here.
\<close>

definition error_banner_msg :: js_string where
  "error_banner_msg = str ''Something went wrong. Please refresh the page.''"

definition window_error :: "js_error \<Rightarrow> app \<Rightarrow> app" where
  "window_error e s =
     setTimeout (RemoveNotification (next_node s)) 5000
       (s\<lparr>notifications := notifications s @
            [(next_node s, \<lparr>kind = ErrorBanner, message = error_banner_msg, sliding_out = False\<rparr>)],
          next_node := Suc (next_node s)\<rparr>)"

definition uncaught :: "js_error option \<times> app \<Rightarrow> app" where
  "uncaught r = (case fst r of None \<Rightarrow> snd r | Some e \<Rightarrow> window_error e (snd r))"

fun fire :: "timer_action \<Rightarrow> app \<Rightarrow> js_error option \<times> app" where
  "fire (SetLabel name) s =
     (case recipientName s of
        None \<Rightarrow> (Some TypeError, s)
      | Some l \<Rightarrow>
          (None, s\<lparr>recipientName :=
                     Some (l\<lparr>textContent := name, loading := False,
                             animation := str ''bounce 0.6s ease-out''\<rparr>)\<rparr>))"
| "fire EndAnimation s =
     (let s1 = s\<lparr>isAnimating := False\<rparr> in
      case playAnimationBtn s1 of
        None \<Rightarrow> (Some TypeError, s1)
      | Some b \<Rightarrow>
          (None,
           announceToScreenReader (str ''Cake animation completed'')
             (s1\<lparr>playAnimationBtn := Some (b\<lparr>disabled := False, btn_loading := False\<rparr>)\<rparr>)))"
| "fire (RemoveAnnouncement n) s =
     (None, s\<lparr>announcements := filter (\<lambda>a. fst a \<noteq> n) (announcements s)\<rparr>)"
| "fire (HideSuccess n) s =
     (case messageSection s of
        Some (Some messageCard) \<Rightarrow>
          (None,
           setTimeout (RemoveNotification n) 300
             (s\<lparr>notifications :=
                  map (\<lambda>b. if fst b = n then (fst b, (snd b)\<lparr>sliding_out := True\<rparr>) else b)
                    (notifications s),
                messageSection := Some (Some (messageCard\<lparr>success := False\<rparr>))\<rparr>))
      | _ \<Rightarrow> (Some TypeError, s))"
| "fire (RemoveNotification n) s =
     (None, s\<lparr>notifications := filter (\<lambda>b. fst b \<noteq> n) (notifications s)\<rparr>)"
| "fire ResizeLater s = (None, s)"

text \<open>
  One turn of the event loop over the timers: every timeout that is due runs, earliest
  first, timeouts with the same due time in the order they were set. A callback can set
  timeouts; their delays are positive, so none of them is due in the same turn.
\<close>

definition due_timers :: "app \<Rightarrow> (nat \<times> timer_action) list" where
  "due_timers s = sort_key fst (filter (\<lambda>t. fst t \<le> clock s) (timers s))"

definition run_timers :: "app \<Rightarrow> app" where
  "run_timers s =
     fold (\<lambda>t s'. uncaught (fire (snd t) s')) (due_timers s)
       (s\<lparr>timers := filter (\<lambda>t. \<not> fst t \<le> clock s) (timers s)\<rparr>)"

definition elapse :: "nat \<Rightarrow> app \<Rightarrow> app" where
  "elapse n s = s\<lparr>clock := clock s + n\<rparr>"

text \<open>
  What can happen to the page: the user's clicks, keys and edits, time passing, and a turn
  of the event loop. A listener attached with \<^verbatim>\<open>?.addEventListener\<close> exists only when its
  element does, and a disabled button receives no click. \<^verbatim>\<open>KeyDown k c\<close> is a keydown
  anywhere in the document with \<^verbatim>\<open>c\<close> telling whether Ctrl or Meta is held; \<^verbatim>\<open>KeyPress\<close>
  is a keypress in the name input; \<^verbatim>\<open>Input d\<close> is an edit that leaves \<^verbatim>\<open>d\<close> in the
  name input; \<^verbatim>\<open>Focus\<close> covers every way the focus moves apart from the script's own
  calls of \<^verbatim>\<open>focus()\<close>, the focus trap of the dialog included.

  Left out is what touches nothing the page state holds: the ARIA attributes set once at
  startup, the console, the tones played on a click of the play button, the theme class,
  the intersection observer and the service worker. \<^verbatim>\<open>handleResize\<close> moves the
  decorative particles only, so its debounced callback \<^verbatim>\<open>ResizeLater\<close> changes nothing;
  the selection made by \<^verbatim>\<open>select()\<close> in \<^verbatim>\<open>openModal\<close> is not kept either.
\<close>

datatype event =
    ClickChangeName
  | ClickCloseModal
  | ClickCancel
  | ClickSave
  | ClickPlay
  | ClickBackdrop
  | KeyDown key bool
  | KeyPress key
  | Input js_string
  | Resize
  | Focus focus_target
  | Elapse nat
  | RunTimers

fun dispatch :: "event \<Rightarrow> app \<Rightarrow> app" where
  "dispatch ClickChangeName s = (if changeNameBtn s then openModal s else s)"
| "dispatch ClickCloseModal s = (if closeModal_el s then closeModal s else s)"
| "dispatch ClickCancel s = (if cancelBtn s then closeModal s else s)"
| "dispatch ClickSave s =
     (case saveNameBtn s of
        None \<Rightarrow> s
      | Some b \<Rightarrow> if disabled b then s else uncaught (saveName s))"
| "dispatch ClickPlay s =
     (case playAnimationBtn s of
        None \<Rightarrow> s
      | Some b \<Rightarrow> if disabled b then s else uncaught (replayAnimation s))"
| "dispatch ClickBackdrop s = (case nameModal s of None \<Rightarrow> s | Some m \<Rightarrow> closeModal s)"
| "dispatch (KeyDown k c) s = uncaught (handleKeyboardNavigation k c s)"
| "dispatch (KeyPress k) s =
     (case nameInput s of
        None \<Rightarrow> s
      | Some i \<Rightarrow> if k = Enter then uncaught (saveName s) else s)"
| "dispatch (Input d) s =
     (case nameInput s of
        None \<Rightarrow> s
      | Some i \<Rightarrow> validateInput (s\<lparr>nameInput := Some (i\<lparr>input_value := d\<rparr>)\<rparr>))"
| "dispatch Resize s = debounced_handleResize s"
| "dispatch (Focus t) s = s\<lparr>focused := t\<rparr>"
| "dispatch (Elapse n) s = elapse n s"
| "dispatch RunTimers s = run_timers s"

definition run :: "event list \<Rightarrow> app \<Rightarrow> app" where
  "run evs s = fold dispatch evs s"

text \<open>
  Loading the page: the script starts from the document as it was parsed, with its own
  state as declared (\<^verbatim>\<open>currentName: 'Lovie'\<close>, \<^verbatim>\<open>isAnimating: false\<close>), no timeout set
  and no node created yet, and runs \<^verbatim>\<open>init\<close>.
\<close>

definition fresh :: "app \<Rightarrow> app" where
  "fresh d = d\<lparr>currentName := str ''Lovie'', isAnimating := False, announcements := [],
               notifications := [], next_node := 0, timers := []\<rparr>"

definition page_load :: "app \<Rightarrow> app" where
  "page_load d = uncaught (init (fresh d))"


section \<open>The specification's validation, and a sample document\<close>

text \<open>
  The specification's \<^verbatim>\<open>validateDraft\<close>, following its words: \<^verbatim>\<open>Valid\<close> iff the text
  trimmed is non-empty and at most 20 characters, \<^verbatim>\<open>TooLong\<close> if more than 20,
  \<^verbatim>\<open>Empty\<close> if blank after trimming.
\<close>

datatype verdict = Valid | TooLong | Empty

definition validateDraft :: "js_string \<Rightarrow> verdict" where
  "validateDraft text =
     (if trim text = [] then Empty else if length (trim text) > 20 then TooLong else Valid)"

text \<open>
  A document with every element the script looks up and an empty store that accepts
  writes; the same document with a store that holds \<open>v\<close> under the script's key, and
  with a store that refuses writes; a page as it is after the document has loaded and
  the user has opened the dialog and left the draft \<open>d\<close> in the field; the draft
  \<^verbatim>\<open>Alex\<close> followed by 17 spaces; and the name \<^verbatim>\<open>A\<close>, line feed, \<^verbatim>\<open>B\<close>.
\<close>

definition sample_document :: app where
  "sample_document =
     \<lparr>currentName = [], isAnimating = False,
      recipientName = Some \<lparr>textContent = str ''Lovie'', loading = False, animation = []\<rparr>,
      changeNameBtn = True,
      playAnimationBtn = Some \<lparr>disabled = False, btn_loading = False\<rparr>,
      nameModal = Some \<lparr>active = False\<rparr>,
      nameInput = Some \<lparr>input_value = [], borderColor = [], boxShadow = [],
                         errorMessages = Some []\<rparr>,
      saveNameBtn = Some \<lparr>disabled = False, btn_loading = False\<rparr>,
      cancelBtn = True, closeModal_el = True,
      messageSection = Some (Some \<lparr>celebration = False, success = False\<rparr>),
      cake = Some [0, 0, 0],
      body_overflow = [], focused = Elsewhere, announcements = [], notifications = [],
      next_node = 0,
      localStorage = \<lparr>items = Map.empty, quota_exceeded = False\<rparr>,
      clock = 0, timers = []\<rparr>"

definition document_with_stored :: "js_string \<Rightarrow> app" where
  "document_with_stored v =
     sample_document\<lparr>localStorage := \<lparr>items = [storage_key \<mapsto> v], quota_exceeded = False\<rparr>\<rparr>"


definition refusing_document :: app where
  "refusing_document =
     sample_document\<lparr>localStorage := \<lparr>items = Map.empty, quota_exceeded = True\<rparr>\<rparr>"

definition editing :: "app \<Rightarrow> js_string \<Rightarrow> app" where
  "editing doc d = run [ClickChangeName, Input d] (page_load doc)"

definition padded_alex :: js_string where
  "padded_alex = str ''Alex                 ''"

section \<open>Notions used in the statements and proofs\<close>

text \<open>
  The name a page load would take from a store; whether the stored name, trimmed, fits the
  limit; whether an event reaches \<^verbatim>\<open>saveName\<close>; the trimmed draft in the field and
  whether \<^verbatim>\<open>saveName\<close> accepts it.
\<close>

definition startup_name :: "storage \<Rightarrow> js_string" where
  "startup_name st =
     (case getItem st storage_key of
        None \<Rightarrow> str ''Lovie''
      | Some v \<Rightarrow> if trim v = [] then str ''Lovie'' else trim v)"

definition stored_name_fits :: "storage \<Rightarrow> bool" where
  "stored_name_fits st =
     (case getItem st storage_key of None \<Rightarrow> True | Some v \<Rightarrow> length (trim v) \<le> 20)"

definition save_runs :: "event \<Rightarrow> app \<Rightarrow> bool" where
  "save_runs e s =
     (case e of
        ClickSave \<Rightarrow> (case saveNameBtn s of None \<Rightarrow> False | Some b \<Rightarrow> \<not> disabled b)
      | KeyPress k \<Rightarrow> k = Enter \<and> nameInput s \<noteq> None
      | _ \<Rightarrow> False)"

definition draft :: "app \<Rightarrow> js_string" where
  "draft s = (case nameInput s of None \<Rightarrow> [] | Some i \<Rightarrow> trim (input_value i))"

definition draft_valid :: "app \<Rightarrow> bool" where
  "draft_valid s \<longleftrightarrow> draft s \<noteq> [] \<and> length (draft s) \<le> 20"

text \<open>
  The pending timeouts are in order when every announcement they remove has been created,
  and at most one of them ends the animation, none when \<^verbatim>\<open>isAnimating\<close> is false.
\<close>

definition tm_ok :: "(nat \<times> timer_action) list \<Rightarrow> nat \<Rightarrow> bool \<Rightarrow> bool" where
  "tm_ok ts n a \<longleftrightarrow>
     (\<forall>d i. (d, RemoveAnnouncement i) \<in> set ts \<longrightarrow> i < n) \<and>
     length (filter (\<lambda>t. snd t = EndAnimation) ts) \<le> (if a then 1 else 0)"

definition timers_inv :: "app \<Rightarrow> bool" where
  "timers_inv s \<longleftrightarrow> tm_ok (timers s) (next_node s) (isAnimating s)"

text \<open>
  A step is ordinary when it leaves \<^verbatim>\<open>isAnimating\<close>, the play button and the clock
  alone, creates nodes only, keeps every pending end of the animation and keeps the
  pending timeouts in order, also with timeouts \<open>pre\<close> taken out of the queue to run. A
  step keeps the name when \<^verbatim>\<open>currentName\<close> and the store stay as they are.
\<close>

definition ordinary :: "app \<Rightarrow> app \<Rightarrow> bool" where
  "ordinary s s' \<longleftrightarrow>
     isAnimating s' = isAnimating s \<and> playAnimationBtn s' = playAnimationBtn s \<and>
     clock s' = clock s \<and> next_node s \<le> next_node s' \<and>
     (\<forall>d. (d, EndAnimation) \<in> set (timers s) \<longrightarrow> (d, EndAnimation) \<in> set (timers s')) \<and>
     (\<forall>pre a. tm_ok (pre @ timers s) (next_node s) a \<longrightarrow>
              tm_ok (pre @ timers s') (next_node s') a)"

definition same_name :: "app \<Rightarrow> app \<Rightarrow> bool" where
  "same_name s s' \<longleftrightarrow> currentName s' = currentName s \<and> localStorage s' = localStorage s"

text \<open>
  The invariant of \<^verbatim>\<open>currentName\<close> over the pages reached from the document \<open>d\<close>, and
  the state of a page during the cooldown that ends at time \<open>D\<close>.
\<close>

definition name_inv :: "app \<Rightarrow> app \<Rightarrow> bool" where
  "name_inv d s \<longleftrightarrow>
     currentName s \<noteq> [] \<and> trim (currentName s) = currentName s \<and>
     quota_exceeded (localStorage s) = quota_exceeded (localStorage d) \<and>
     (stored_name_fits (localStorage d) \<longrightarrow> length (currentName s) \<le> 20) \<and>
     (\<not> quota_exceeded (localStorage d) \<longrightarrow> currentName s = startup_name (localStorage s))"

definition cooling :: "nat \<Rightarrow> app \<Rightarrow> bool" where
  "cooling D s \<longleftrightarrow>
     isAnimating s \<and> map_option disabled (playAnimationBtn s) = Some True \<and>
     (D, EndAnimation) \<in> set (timers s) \<and> timers_inv s"

section \<open>Strings, sorting and timers: auxiliary facts\<close>

lemma length_trim_le: "length (trim s) \<le> length s"
proof -
  have "length (trim s) \<le> length (dropWhile isWhiteSpace s)"
    using length_dropWhile_le [of isWhiteSpace "rev (dropWhile isWhiteSpace s)"]
    by (simp add: trim_def)
  also have "\<dots> \<le> length s"
    by (rule length_dropWhile_le)
  finally show ?thesis .
qed

lemma trim_idem: "trim (trim s) = trim s"
proof -
  define t where "t = dropWhile isWhiteSpace s"
  define u where "u = dropWhile isWhiteSpace (rev t)"
  have at_front: "dropWhile isWhiteSpace u = u"
    unfolding u_def by simp
  have at_back: "dropWhile isWhiteSpace (rev u) = rev u"
  proof (cases "u = []")
    case True
    then show ?thesis by simp
  next
    case False
    then have "t \<noteq> []" unfolding u_def by auto
    then have nt: "\<not> isWhiteSpace (hd t)"
      unfolding t_def by (rule hd_dropWhile)
    have "hd t \<in> set (rev t)" using \<open>t \<noteq> []\<close> by simp
    then have "last u = last (rev t)"
      unfolding u_def using nt by (rule dropWhile_last)
    then have "last u = hd t" using \<open>t \<noteq> []\<close> by (simp add: last_rev)
    then have "\<not> isWhiteSpace (hd (rev u))" using nt False by (simp add: hd_rev)
    then show ?thesis by (simp add: dropWhile_eq_self_iff)
  qed
  have "trim s = rev u" by (simp add: trim_def t_def u_def)
  moreover have "trim (rev u) = rev u" by (simp add: trim_def at_back at_front)
  ultimately show ?thesis by simp
qed

lemma insort_key_snoc:
  "f a \<le> f x \<Longrightarrow> insort_key f a (ys @ [x]) = insort_key f a ys @ [x]"
  by (induction ys) auto

lemma sort_key_snoc_max:
  "\<forall>y\<in>set xs. f y \<le> f x \<Longrightarrow> sort_key f (xs @ [x]) = sort_key f xs @ [x]"
  by (induction xs) (auto simp: insort_key_snoc)

lemmas script_defs = setTimeout_def announceToScreenReader_def updateDisplayedName_def
  loadSavedName_def openModal_def closeModal_def showInputError_def clearInputError_def
  showSuccessMessage_def saveName_def replayAnimation_def validateInput_def
  handleKeyboardNavigation_def debounced_handleResize_def init_def window_error_def
  uncaught_def getItem_def setItem_def modal_is_active_def

lemma fire_keeps_label:
  "recipientName s \<noteq> None \<Longrightarrow> recipientName (uncaught (fire a s)) \<noteq> None"
  by (cases a) (auto simp: script_defs Let_def split: option.splits)

lemma fold_fire_keeps_label:
  "recipientName s \<noteq> None \<Longrightarrow>
   recipientName (fold (\<lambda>t s'. uncaught (fire (snd t) s')) ts s) \<noteq> None"
  by (induction ts arbitrary: s) (simp_all add: fire_keeps_label del: fire.simps not_None_eq)

lemma run_timers_last_label:
  assumes "recipientName s \<noteq> None"
    and "filter (\<lambda>t. fst t \<le> clock s) (timers s) = ds @ [(clock s, SetLabel n)]"
  shows "map_option textContent (recipientName (run_timers s)) = Some n"
proof -
  have "set (filter (\<lambda>t. fst t \<le> clock s) (timers s)) = set (ds @ [(clock s, SetLabel n)])"
    using assms(2) by simp
  then have "\<forall>y\<in>set ds. fst y \<le> clock s"
    by auto
  then have "due_timers s = sort_key fst ds @ [(clock s, SetLabel n)]"
    unfolding due_timers_def assms(2) by (simp add: sort_key_snoc_max)
  moreover define s0 where "s0 = fold (\<lambda>t s'. uncaught (fire (snd t) s')) (sort_key fst ds)
       (s\<lparr>timers := filter (\<lambda>t. \<not> fst t \<le> clock s) (timers s)\<rparr>)"
  ultimately have "run_timers s = uncaught (fire (SetLabel n) s0)"
    by (simp add: run_timers_def)
  moreover have "recipientName s0 \<noteq> None"
    unfolding s0_def using assms(1) by (intro fold_fire_keeps_label) simp
  ultimately show ?thesis
    by (auto simp: uncaught_def)
qed

lemmas sample_defs = run_def page_load_def fresh_def sample_document_def editing_def
  elapse_def run_timers_def due_timers_def Let_def

lemma padded_alex_facts:
  "trim padded_alex = str ''Alex''" "length padded_alex = 21"
  "length (str ''Alex'') = 4" "str ''Alex'' \<noteq> []"
  by (simp_all add: padded_alex_def trim_def str_def isWhiteSpace_def)

lemma alex_facts:
  "trim (str ''Alex'') = str ''Alex''"
  by (simp add: trim_def str_def isWhiteSpace_def)

lemma spaced_alex_facts:
  "trim (str ''  Alex  '') = str ''Alex''"
  by (simp add: trim_def str_def isWhiteSpace_def)

lemma lovie_facts:
  "trim (str ''Lovie'') = str ''Lovie''" "str ''Lovie'' \<noteq> []" "length (str ''Lovie'') = 5"
  by (simp_all add: trim_def str_def isWhiteSpace_def)

section \<open>Live validation of the draft\<close>

text \<open>
  C1 (the draft is Valid, with the save action enabled and no inline error, iff its
  trimmed form has between 1 and 20 characters). \<^verbatim>\<open>validateInput\<close> tests
  \<^verbatim>\<open>value.trim()\<close> for emptiness but \<^verbatim>\<open>value.length\<close>, the untrimmed length, against
  20, whereas \<^verbatim>\<open>saveName\<close> measures the trimmed draft. For \<^verbatim>\<open>Alex\<close> followed by 17
  spaces the specification's verdict is Valid, yet \<^verbatim>\<open>validateInput\<close> disables the save
  button and shows the too-long message, and \<^verbatim>\<open>saveName\<close> accepts the same draft.
\<close>

theorem validateInput_rejects_padded_draft:
  "length padded_alex = 21 \<and> trim padded_alex = str ''Alex'' \<and>
   validateDraft padded_alex = Valid \<and>
   map_option disabled (saveNameBtn (editing sample_document padded_alex)) = Some True \<and>
   Option.bind (nameInput (editing sample_document padded_alex)) errorMessages = Some [too_long_msg] \<and>
   fst (saveName (editing sample_document padded_alex)) = None \<and>
   currentName (snd (saveName (editing sample_document padded_alex))) = trim padded_alex"
  by (simp add: validateDraft_def padded_alex_facts sample_defs script_defs)

lemma validateInput_enables_iff:
  assumes "nameInput s = Some i" and "saveNameBtn s = Some b"
  shows "map_option disabled (saveNameBtn (validateInput s))
         = Some (\<not> (trim (input_value i) \<noteq> [] \<and> length (input_value i) \<le> 20))"
  using assms by (auto simp: script_defs Let_def)

lemma saveName_accepts:
  assumes "nameInput s = Some i" and "trim (input_value i) \<noteq> []"
    and "length (trim (input_value i)) \<le> 20"
    and "\<not> quota_exceeded (localStorage s)"
  shows "fst (saveName s) = None \<and>
     currentName (snd (saveName s)) = trim (input_value i) \<and>
     items (localStorage (snd (saveName s)))
       = (items (localStorage s))(storage_key \<mapsto> trim (input_value i)) \<and>
     quota_exceeded (localStorage (snd (saveName s))) = quota_exceeded (localStorage s) \<and>
     nameModal (snd (saveName s)) = map_option (\<lambda>m. m\<lparr>active := False\<rparr>) (nameModal s) \<and>
     recipientName (snd (saveName s)) = map_option (\<lambda>l. l\<lparr>loading := True\<rparr>) (recipientName s)"
  using assms by (auto simp: script_defs Let_def split: option.splits)

lemma updateDisplayedName_fields:
  "currentName (updateDisplayedName n s) = currentName s"
  "localStorage (updateDisplayedName n s) = localStorage s"
  "nameModal (updateDisplayedName n s) = nameModal s"
  "notifications (updateDisplayedName n s) = notifications s"
  "next_node (updateDisplayedName n s) = next_node s"
  "clock (updateDisplayedName n s) = clock s"
  "messageSection (updateDisplayedName n s) = messageSection s"
  "recipientName (updateDisplayedName n s) = map_option (\<lambda>l. l\<lparr>loading := True\<rparr>) (recipientName s)"
  "timers (updateDisplayedName n s) =
     timers s @ (case recipientName s of None \<Rightarrow> [] | Some l \<Rightarrow> [(clock s + 150, SetLabel n)])"
  by (simp_all add: updateDisplayedName_def setTimeout_def split: option.splits)

lemma saveName_refused:
  assumes "nameInput s = Some i" and "trim (input_value i) \<noteq> []"
    and "length (trim (input_value i)) \<le> 20"
    and "quota_exceeded (localStorage s)"
  shows "saveName s =
     (Some QuotaExceededError,
      updateDisplayedName (trim (input_value i)) (s\<lparr>currentName := trim (input_value i)\<rparr>))"
  using assms by (simp add: saveName_def Let_def setItem_def updateDisplayedName_fields)


section \<open>Saving a valid draft\<close>

text \<open>
  C2 as stated (saving a valid draft always persists the trimmed draft and closes the
  dialog) fails when the store refuses the write: \<^verbatim>\<open>localStorage.setItem\<close> throws
  before \<^verbatim>\<open>closeModal\<close> is reached. With such a store, after saving the valid draft
  \<^verbatim>\<open>Alex\<close> nothing is stored under the script's key and the dialog is still open.
\<close>

theorem refused_write_leaves_valid_draft_unsaved:
  "validateDraft (str ''Alex'') = Valid \<and>
   map_option input_value (nameInput (editing refusing_document (str ''Alex''))) = Some (str ''Alex'') \<and>
   getItem (localStorage (uncaught (saveName (editing refusing_document (str ''Alex'')))))
     storage_key = None \<and>
   map_option active (nameModal (uncaught (saveName (editing refusing_document (str ''Alex'')))))
     = Some True"
  by (simp add: validateDraft_def sample_defs refusing_document_def script_defs
      padded_alex_facts alex_facts)

text \<open>
  C2, amended: when the draft's trimmed form has between 1 and 20 characters and the
  dialog and the label exist, \<^verbatim>\<open>saveName\<close> sets \<^verbatim>\<open>currentName\<close> to the trimmed draft;
  the label keeps its text for now and shows the trimmed draft after the turn of the event
  loop 150 ms later; and provided the store accepts the write, \<^verbatim>\<open>saveName\<close> returns
  normally, writes exactly the trimmed draft under the script's key and nothing else, and
  closes the dialog.
\<close>

theorem saveName_valid:
  assumes "nameInput s = Some i" and "trim (input_value i) \<noteq> []"
    and "length (trim (input_value i)) \<le> 20"
    and "nameModal s = Some m" and "recipientName s = Some l"
  shows "currentName (uncaught (saveName s)) = trim (input_value i) \<and>
     recipientName (uncaught (saveName s)) = Some (l\<lparr>loading := True\<rparr>) \<and>
     map_option textContent (recipientName (run_timers (elapse 150 (uncaught (saveName s)))))
       = Some (trim (input_value i)) \<and>
     (\<not> quota_exceeded (localStorage s) \<longrightarrow>
        fst (saveName s) = None \<and>
        items (localStorage (uncaught (saveName s)))
          = (items (localStorage s))(storage_key \<mapsto> trim (input_value i)) \<and>
        nameModal (uncaught (saveName s)) = Some (m\<lparr>active := False\<rparr>))"
proof -
  let ?n = "trim (input_value i)"
  let ?s' = "uncaught (saveName s)"
  have always: "currentName ?s' = ?n \<and> recipientName ?s' = Some (l\<lparr>loading := True\<rparr>) \<and>
     clock ?s' = clock s \<and>
     filter (\<lambda>t. fst t \<le> clock s + 150) (timers ?s')
       = filter (\<lambda>t. fst t \<le> clock s + 150) (timers s) @ [(clock s + 150, SetLabel ?n)]"
  proof (cases "quota_exceeded (localStorage s)")
    case True
    show ?thesis
      unfolding saveName_refused [OF assms(1-3) True] using assms(5)
      by (simp add: uncaught_def window_error_def setTimeout_def updateDisplayedName_fields)
  next
    case False
    have "clock (snd (saveName s)) = clock s \<and>
       filter (\<lambda>t. fst t \<le> clock s + 150) (timers (snd (saveName s)))
         = filter (\<lambda>t. fst t \<le> clock s + 150) (timers s) @ [(clock s + 150, SetLabel ?n)]"
      using assms False by (auto simp: script_defs Let_def split: option.splits)
    then show ?thesis
      using saveName_accepts [OF assms(1-3) False] assms(5) by (simp add: uncaught_def)
  qed
  have "filter (\<lambda>t. fst t \<le> clock (elapse 150 ?s')) (timers (elapse 150 ?s'))
      = filter (\<lambda>t. fst t \<le> clock s + 150) (timers s) @ [(clock (elapse 150 ?s'), SetLabel ?n)]"
    using always by (simp add: elapse_def)
  moreover have "recipientName (elapse 150 ?s') \<noteq> None"
    using always by (simp add: elapse_def)
  ultimately have later: "map_option textContent (recipientName (run_timers (elapse 150 ?s')))
      = Some ?n"
    by (rule run_timers_last_label [rotated])
  have "fst (saveName s) = None \<and>
      items (localStorage ?s') = (items (localStorage s))(storage_key \<mapsto> ?n) \<and>
      nameModal ?s' = Some (m\<lparr>active := False\<rparr>)"
    if "\<not> quota_exceeded (localStorage s)"
    using saveName_accepts [OF assms(1-3) that] assms(4) by (simp add: uncaught_def)
  with always later show ?thesis
    by blast
qed

theorem saveName_valid_witness:
  "\<not> quota_exceeded (localStorage (editing sample_document (str ''  Alex  ''))) \<and>
   fst (saveName (editing sample_document (str ''  Alex  ''))) = None \<and>
   currentName (uncaught (saveName (editing sample_document (str ''  Alex  '')))) = str ''Alex'' \<and>
   items (localStorage (uncaught (saveName (editing sample_document (str ''  Alex  '')))))
     storage_key = Some (str ''Alex'') \<and>
   nameModal (uncaught (saveName (editing sample_document (str ''  Alex  ''))))
     = Some \<lparr>active = False\<rparr> \<and>
   map_option textContent
     (recipientName
       (run_timers (elapse 150 (uncaught (saveName (editing sample_document (str ''  Alex  '')))))))
     = Some (str ''Alex'')"
proof -
  let ?E = "editing sample_document (str ''  Alex  '')"
  have e: "nameInput ?E
       = Some \<lparr>input_value = str ''  Alex  '', borderColor = [], boxShadow = [],
               errorMessages = Some []\<rparr>"
     "\<not> quota_exceeded (localStorage ?E)"
     "nameModal ?E = Some \<lparr>active = True\<rparr>"
     "recipientName ?E = Some \<lparr>textContent = str ''Lovie'', loading = False, animation = []\<rparr>"
    by (simp_all add: sample_defs script_defs spaced_alex_facts padded_alex_facts str_def)
  have v: "trim (str ''  Alex  '') \<noteq> []" "length (trim (str ''  Alex  '')) \<le> 20"
    by (simp_all add: spaced_alex_facts padded_alex_facts)
  have "currentName (uncaught (saveName ?E)) = trim (str ''  Alex  '') \<and>
     map_option textContent (recipientName (run_timers (elapse 150 (uncaught (saveName ?E)))))
       = Some (trim (str ''  Alex  '')) \<and>
     fst (saveName ?E) = None \<and>
     items (localStorage (uncaught (saveName ?E)))
       = (items (localStorage ?E))(storage_key \<mapsto> trim (str ''  Alex  '')) \<and>
     nameModal (uncaught (saveName ?E)) = Some (\<lparr>active = True\<rparr>\<lparr>active := False\<rparr>)"
    using saveName_valid [OF e(1) _ _ e(3) e(4)] v e(2) by simp
  then show ?thesis
    using e(2) by (simp add: spaced_alex_facts)
qed

lemma saveName_invalid:
  assumes "nameInput s = Some i"
    and "trim (input_value i) = [] \<or> length (trim (input_value i)) > 20"
  shows "saveName s =
     (None, showInputError (if trim (input_value i) = [] then empty_name_msg else too_long_msg) s)"
  using assms by (auto simp: saveName_def Let_def)

lemma showInputError_fields:
  assumes "nameInput s = Some i"
  shows "nameInput (showInputError msg s) =
       Some (i\<lparr>borderColor := str ''var(--error-500)'',
               boxShadow := str ''0 0 0 3px rgba(239, 68, 68, 0.1)'',
               errorMessages := map_option (\<lambda>es. drop 1 es @ [msg]) (errorMessages i)\<rparr>)"
    and "announcements (showInputError msg s)
       = announcements s @ [(next_node s, str ''Error: '' @ msg)]"
    and "timers (showInputError msg s)
       = timers s @ [(clock s + 1000, RemoveAnnouncement (next_node s))]"
    and "nameModal (showInputError msg s) = nameModal s"
    and "currentName (showInputError msg s) = currentName s"
    and "isAnimating (showInputError msg s) = isAnimating s"
    and "localStorage (showInputError msg s) = localStorage s"
    and "recipientName (showInputError msg s) = recipientName s"
    and "notifications (showInputError msg s) = notifications s"
    and "saveNameBtn (showInputError msg s) = saveNameBtn s"
  using assms by (simp_all add: showInputError_def announceToScreenReader_def setTimeout_def)

section \<open>Saving an empty or overlong draft\<close>

text \<open>
  C3: when the draft is blank after trimming or its trimmed form has more than 20
  characters, \<^verbatim>\<open>saveName\<close> returns normally after \<^verbatim>\<open>showInputError\<close> with the
  message for that case: the message replaces the first inline error below the input's
  parent and is announced; the draft stays in the field, the dialog is as it was,
  \<^verbatim>\<open>currentName\<close>, \<^verbatim>\<open>isAnimating\<close>, the store, the label and the banners are
  unchanged, and the only new timeout removes the announcement.
\<close>

theorem saveName_rejects_invalid:
  assumes "nameInput s = Some i"
    and "trim (input_value i) = [] \<or> length (trim (input_value i)) > 20"
  shows "fst (saveName s) = None \<and>
     Option.bind (nameInput (snd (saveName s))) errorMessages =
       map_option
         (\<lambda>es. drop 1 es @ [if trim (input_value i) = [] then empty_name_msg else too_long_msg])
         (errorMessages i) \<and>
     announcements (snd (saveName s)) = announcements s @
       [(next_node s, str ''Error: '' @
          (if trim (input_value i) = [] then empty_name_msg else too_long_msg))] \<and>
     map_option input_value (nameInput (snd (saveName s))) = Some (input_value i) \<and>
     nameModal (snd (saveName s)) = nameModal s \<and>
     currentName (snd (saveName s)) = currentName s \<and>
     isAnimating (snd (saveName s)) = isAnimating s \<and>
     localStorage (snd (saveName s)) = localStorage s \<and>
     recipientName (snd (saveName s)) = recipientName s \<and>
     notifications (snd (saveName s)) = notifications s \<and>
     timers (snd (saveName s)) = timers s @ [(clock s + 1000, RemoveAnnouncement (next_node s))]"
  unfolding saveName_invalid [OF assms] 
  by (simp add: showInputError_fields [OF assms(1)])

lemma long_draft_facts:
  "trim (str ''A very very long name indeed'') = str ''A very very long name indeed''"
  "length (str ''A very very long name indeed'') = 28"
  "trim (str ''   '') = []" "length (str ''   '') = 3"
  "str ''A very very long name indeed'' \<noteq> []"
  by (simp_all add: trim_def str_def isWhiteSpace_def)

lemma editing_blank:
  "nameInput (editing sample_document (str ''   ''))
       = Some \<lparr>input_value = str ''   '', borderColor = [], boxShadow = [],
               errorMessages = Some []\<rparr>"
  "modal_is_active (editing sample_document (str ''   ''))"
  "currentName (editing sample_document (str ''   '')) = str ''Lovie''"
  "localStorage (editing sample_document (str ''   '')) = \<lparr>items = Map.empty, quota_exceeded = False\<rparr>"
  by (simp_all add: sample_defs script_defs long_draft_facts)

lemma editing_long:
  "nameInput (editing sample_document (str ''A very very long name indeed''))
       = Some \<lparr>input_value = str ''A very very long name indeed'',
               borderColor = str ''var(--error-500)'',
               boxShadow = str ''0 0 0 3px rgba(239, 68, 68, 0.1)'',
               errorMessages = Some [too_long_msg]\<rparr>"
  "nameModal (editing sample_document (str ''A very very long name indeed'')) = Some \<lparr>active = True\<rparr>"
  "currentName (editing sample_document (str ''A very very long name indeed'')) = str ''Lovie''"
  by (simp_all add: sample_defs script_defs long_draft_facts)

theorem saveName_rejects_invalid_witness:
  "modal_is_active (editing sample_document (str ''   '')) \<and>
   nameModal (snd (saveName (editing sample_document (str ''   '')))) = nameModal (editing sample_document (str ''   '')) \<and>
   currentName (snd (saveName (editing sample_document (str ''   '')))) = str ''Lovie'' \<and>
   localStorage (snd (saveName (editing sample_document (str ''   ''))))
     = \<lparr>items = Map.empty, quota_exceeded = False\<rparr> \<and>
   Option.bind (nameInput (snd (saveName (editing sample_document (str ''   ''))))) errorMessages
     = Some [empty_name_msg] \<and>
   Option.bind
     (nameInput (snd (saveName (editing sample_document (str ''A very very long name indeed''))))) errorMessages
     = Some [too_long_msg] \<and>
   currentName (snd (saveName (editing sample_document (str ''A very very long name indeed'')))) = str ''Lovie''"
  using saveName_rejects_invalid [OF editing_blank(1)]
    saveName_rejects_invalid [OF editing_long(1)] editing_blank(2-) editing_long(2-)
  by (simp add: long_draft_facts)

section \<open>Replay while animating or without a cake\<close>

text \<open>
  C6: while \<^verbatim>\<open>isAnimating\<close> is true, or when the cake element is missing,
  \<^verbatim>\<open>replayAnimation\<close> returns normally and leaves the whole page as it is, whether it
  is reached by a click on the play button or by Ctrl/Meta+R.
\<close>

theorem replayAnimation_noop:
  assumes "isAnimating s \<or> cake s = None"
  shows "replayAnimation s = (None, s) \<and> dispatch ClickPlay s = s \<and>
         dispatch (KeyDown KeyR True) s = s"
proof -
  have r: "replayAnimation s = (None, s)"
    using assms by (auto simp: replayAnimation_def)
  then have "dispatch ClickPlay s = s"
    by (simp add: uncaught_def split: option.splits)
  moreover have "dispatch (KeyDown KeyR True) s = s"
    using r by (simp add: handleKeyboardNavigation_def uncaught_def)
  ultimately show ?thesis using r by simp
qed

theorem replayAnimation_noop_witness:
  "replayAnimation (sample_document\<lparr>isAnimating := True\<rparr>)
     = (None, sample_document\<lparr>isAnimating := True\<rparr>) \<and>
   dispatch ClickPlay (sample_document\<lparr>cake := None\<rparr>) = sample_document\<lparr>cake := None\<rparr>"
  using replayAnimation_noop [of "sample_document\<lparr>isAnimating := True\<rparr>"]
    replayAnimation_noop [of "sample_document\<lparr>cake := None\<rparr>"]
  by simp

section \<open>Closing and reopening the dialog\<close>




section \<open>Enter against a disabled save button\<close>

text \<open>
  C10: for a draft of more than 20 code units whose trimmed form has between 1 and 20,
  the input listener (\<^verbatim>\<open>validateInput\<close>) disables the save button, so a click on it
  does nothing; Enter in the field still calls \<^verbatim>\<open>saveName\<close>, which sets
  \<^verbatim>\<open>currentName\<close> to the trimmed draft and persists it. The draft \<^verbatim>\<open>Alex\<close> followed
  by 17 spaces is such an input.
\<close>

theorem enter_saves_while_button_disabled:
  assumes "nameInput s = Some i" and "saveNameBtn s = Some b"
    and "length d > 20" and "trim d \<noteq> []" and "length (trim d) \<le> 20"
    and "\<not> quota_exceeded (localStorage s)"
  shows "map_option disabled (saveNameBtn (dispatch (Input d) s)) = Some True \<and>
     dispatch ClickSave (dispatch (Input d) s) = dispatch (Input d) s \<and>
     currentName (dispatch (KeyPress Enter) (dispatch (Input d) s)) = trim d \<and>
     getItem (localStorage (dispatch (KeyPress Enter) (dispatch (Input d) s))) storage_key
       = Some (trim d)"
proof -
  define t where "t = dispatch (Input d) s"
  let ?s1 = "s\<lparr>nameInput := Some (i\<lparr>input_value := d\<rparr>),
               saveNameBtn := Some (b\<lparr>disabled := True\<rparr>)\<rparr>"
  have typed: "t = showInputError too_long_msg ?s1"
    using assms(1-3) by (simp add: t_def validateInput_def Let_def)
  have i1: "nameInput ?s1 = Some (i\<lparr>input_value := d\<rparr>)" by simp
  note f = showInputError_fields [OF i1, of too_long_msg]
  have button: "saveNameBtn t = Some (b\<lparr>disabled := True\<rparr>)"
    unfolding typed by (simp add: f)
  have field: "nameInput t =
       Some (i\<lparr>input_value := d, borderColor := str ''var(--error-500)'',
               boxShadow := str ''0 0 0 3px rgba(239, 68, 68, 0.1)'',
               errorMessages := map_option (\<lambda>es. drop 1 es @ [too_long_msg]) (errorMessages i)\<rparr>)"
    unfolding typed by (simp add: f)
  have store: "\<not> quota_exceeded (localStorage t)"
    unfolding typed using assms(6) by (simp add: f)
  have saved: "fst (saveName t) = None \<and> currentName (snd (saveName t)) = trim d \<and>
     items (localStorage (snd (saveName t))) storage_key = Some (trim d)"
    using saveName_accepts [OF field _ _ store] assms(4,5) by simp
  have "dispatch (KeyPress Enter) t = uncaught (saveName t)"
    by (simp add: field)
  then have "currentName (dispatch (KeyPress Enter) t) = trim d \<and>
     getItem (localStorage (dispatch (KeyPress Enter) t)) storage_key = Some (trim d)"
    using saved by (simp add: uncaught_def getItem_def)
  moreover have "dispatch ClickSave t = t"
    by (simp add: button)
  ultimately show ?thesis
    unfolding t_def [symmetric] by (simp add: button)
qed

lemma editing_empty:
  "nameInput (editing sample_document [])
       = Some \<lparr>input_value = [], borderColor = [], boxShadow = [], errorMessages = Some []\<rparr>"
  "saveNameBtn (editing sample_document []) = Some \<lparr>disabled = True, btn_loading = False\<rparr>"
  "\<not> quota_exceeded (localStorage (editing sample_document []))"
  by (simp_all add: sample_defs script_defs trim_def)

theorem enter_saves_while_button_disabled_witness:
  "length padded_alex > 20 \<and> length (trim padded_alex) \<le> 20 \<and>
   map_option disabled (saveNameBtn (dispatch (Input padded_alex) (editing sample_document []))) = Some True \<and>
   currentName (dispatch (KeyPress Enter) (dispatch (Input padded_alex) (editing sample_document [])))
     = str ''Alex'' \<and>
   getItem (localStorage (dispatch (KeyPress Enter) (dispatch (Input padded_alex) (editing sample_document []))))
     storage_key = Some (str ''Alex'')"
  using enter_saves_while_button_disabled
    [OF editing_empty(1) editing_empty(2) _ _ _ editing_empty(3), of padded_alex]
  by (simp add: padded_alex_facts)

lemma saveName_accepts_timer:
  assumes "nameInput s = Some i" and "trim (input_value i) \<noteq> []"
    and "length (trim (input_value i)) \<le> 20"
    and "\<not> quota_exceeded (localStorage s)" and "recipientName s = Some l"
  shows "(clock s + 150, SetLabel (trim (input_value i))) \<in> set (timers (snd (saveName s)))"
  using assms by (auto simp: script_defs Let_def split: option.splits)

section \<open>Saving when the store refuses the write\<close>

text \<open>
  C5 as stated (the dialog closes whether or not the write throws) fails:
  \<^verbatim>\<open>localStorage.setItem\<close> is called before \<^verbatim>\<open>closeModal\<close> and nothing catches its
  exception. With a store that refuses writes, saving the valid draft \<^verbatim>\<open>Alex\<close> leaves
  the dialog open.
\<close>

theorem saveName_refused_write_keeps_dialog_open:
  "validateDraft (str ''Alex'') = Valid \<and>
   modal_is_active (editing refusing_document (str ''Alex'')) \<and>
   fst (saveName (editing refusing_document (str ''Alex''))) = Some QuotaExceededError \<and>
   modal_is_active (dispatch (KeyPress Enter) (editing refusing_document (str ''Alex'')))"
  by (simp add: validateDraft_def sample_defs refusing_document_def script_defs
      padded_alex_facts alex_facts)

text \<open>
  C5, amended: when \<^verbatim>\<open>saveName\<close> runs on a valid draft, \<^verbatim>\<open>currentName\<close> becomes the
  trimmed draft and the label update is scheduled 150 ms ahead (when the label exists),
  whether or not the write throws. If the store refuses the write, the exception reaches
  the window's error listener, which shows its banner; the dialog is as it was and
  nothing is persisted. If the store accepts the write, the dialog is closed and the
  trimmed draft is persisted.
\<close>

theorem saveName_write_outcomes:
  assumes "nameInput s = Some i" and "trim (input_value i) \<noteq> []"
    and "length (trim (input_value i)) \<le> 20"
  shows "currentName (uncaught (saveName s)) = trim (input_value i) \<and>
     recipientName (uncaught (saveName s))
       = map_option (\<lambda>l. l\<lparr>loading := True\<rparr>) (recipientName s) \<and>
     (recipientName s = None \<or>
      (clock s + 150, SetLabel (trim (input_value i))) \<in> set (timers (uncaught (saveName s)))) \<and>
     (if quota_exceeded (localStorage s)
      then fst (saveName s) = Some QuotaExceededError \<and>
           nameModal (uncaught (saveName s)) = nameModal s \<and>
           localStorage (uncaught (saveName s)) = localStorage s \<and>
           notifications (uncaught (saveName s)) = notifications s @
             [(next_node s,
               \<lparr>kind = ErrorBanner, message = error_banner_msg, sliding_out = False\<rparr>)]
      else fst (saveName s) = None \<and>
           nameModal (uncaught (saveName s))
             = map_option (\<lambda>m. m\<lparr>active := False\<rparr>) (nameModal s) \<and>
           items (localStorage (uncaught (saveName s)))
             = (items (localStorage s))(storage_key \<mapsto> trim (input_value i)))"
proof (cases "quota_exceeded (localStorage s)")
  case True
  show ?thesis
    unfolding saveName_refused [OF assms True] using True
    by (cases "recipientName s")
      (simp_all add: uncaught_def window_error_def setTimeout_def updateDisplayedName_fields)
next
  case False
  have "recipientName s = None \<or>
      (clock s + 150, SetLabel (trim (input_value i))) \<in> set (timers (snd (saveName s)))"
  proof (cases "recipientName s")
    case None
    then show ?thesis by simp
  next
    case (Some l)
    then show ?thesis using saveName_accepts_timer [OF assms False Some] by simp
  qed
  then show ?thesis
    using saveName_accepts [OF assms False] False by (simp add: uncaught_def)
qed

theorem saveName_write_outcomes_witness:
  "modal_is_active (editing refusing_document (str ''  Alex  '')) \<and>
   currentName (uncaught (saveName (editing refusing_document (str ''  Alex  '')))) = str ''Alex'' \<and>
   modal_is_active (uncaught (saveName (editing refusing_document (str ''  Alex  '')))) \<and>
   currentName (uncaught (saveName (editing sample_document (str ''  Alex  '')))) = str ''Alex'' \<and>
   \<not> modal_is_active (uncaught (saveName (editing sample_document (str ''  Alex  ''))))"
proof -
  have r: "nameInput (editing refusing_document (str ''  Alex  ''))
       = Some \<lparr>input_value = str ''  Alex  '', borderColor = [], boxShadow = [],
               errorMessages = Some []\<rparr>"
     "quota_exceeded (localStorage (editing refusing_document (str ''  Alex  '')))"
     "nameModal (editing refusing_document (str ''  Alex  '')) = Some \<lparr>active = True\<rparr>"
    and a: "nameInput (editing sample_document (str ''  Alex  ''))
       = Some \<lparr>input_value = str ''  Alex  '', borderColor = [], boxShadow = [],
               errorMessages = Some []\<rparr>"
     "\<not> quota_exceeded (localStorage (editing sample_document (str ''  Alex  '')))"
     "nameModal (editing sample_document (str ''  Alex  '')) = Some \<lparr>active = True\<rparr>"
    by (simp_all add: sample_defs refusing_document_def script_defs spaced_alex_facts
        padded_alex_facts str_def)
  show ?thesis
    using saveName_write_outcomes [OF r(1)] saveName_write_outcomes [OF a(1)] r a
    by (simp add: spaced_alex_facts padded_alex_facts modal_is_active_def)
qed

lemma trim_Nil: "trim [] = []"
  by (simp add: trim_def)

lemma loadSavedName_fields:
  "currentName (loadSavedName s) =
     (case getItem (localStorage s) storage_key of
        None \<Rightarrow> currentName s
      | Some v \<Rightarrow> if trim v = [] then currentName s else trim v)"
  "localStorage (loadSavedName s) = localStorage s"
  "nameModal (loadSavedName s) = nameModal s"
  "next_node (loadSavedName s) = next_node s"
  "clock (loadSavedName s) = clock s"
  "notifications (loadSavedName s) = notifications s"
  "messageSection (loadSavedName s) = messageSection s"
  "timers (loadSavedName s) = timers s @
     (case getItem (localStorage s) storage_key of
        None \<Rightarrow> []
      | Some v \<Rightarrow> if trim v = [] \<or> recipientName s = None then []
                  else [(clock s + 150, SetLabel (trim v))])"
  "recipientName (loadSavedName s) = None \<longleftrightarrow> recipientName s = None"
  by (auto simp: loadSavedName_def updateDisplayedName_fields trim_Nil split: option.splits)

lemma page_load_fields:
  "currentName (page_load d) =
     (case getItem (localStorage d) storage_key of
        None \<Rightarrow> str ''Lovie''
      | Some v \<Rightarrow> if trim v = [] then str ''Lovie'' else trim v)"
  "localStorage (page_load d) = localStorage d"
  "nameModal (page_load d) = nameModal d"
  "clock (page_load d) = clock d"
  "recipientName (page_load d) = None \<longleftrightarrow> recipientName d = None"
  "timers (page_load d) =
     (case getItem (localStorage d) storage_key of
        None \<Rightarrow> []
      | Some v \<Rightarrow> if trim v = [] \<or> recipientName d = None then []
                  else [(clock d + 150, SetLabel (trim v))])
     @ (case messageSection d of None \<Rightarrow> [(clock d + 5000, RemoveNotification 0)] | Some c \<Rightarrow> [])"
  by (auto simp: page_load_def init_def fresh_def uncaught_def window_error_def setTimeout_def
      loadSavedName_fields Let_def split: option.splits)

section \<open>Startup\<close>

text \<open>
  C8 as stated (\<^verbatim>\<open>currentName\<close> equals the stored value) fails for a stored value with
  white space around it: \<^verbatim>\<open>loadSavedName\<close> keeps the trimmed value.
\<close>

theorem page_load_trims_stored_name:
  "getItem (localStorage (document_with_stored (str '' Sam''))) storage_key = Some (str '' Sam'') \<and>
   trim (str '' Sam'') \<noteq> [] \<and>
   currentName (page_load (document_with_stored (str '' Sam''))) \<noteq> str '' Sam''"
  by (simp add: page_load_fields document_with_stored_def sample_document_def getItem_def
      trim_def str_def isWhiteSpace_def)

text \<open>
  C8, amended: after loading, \<^verbatim>\<open>currentName\<close> is \<^verbatim>\<open>Lovie\<close> when the store has no
  value under the script's key or a value that is blank after trimming, and the trimmed
  stored value otherwise; loading neither opens the dialog nor writes to the store; and
  when the trimmed stored value is not blank and the label exists, the label shows it
  after the turn of the event loop 150 ms later.
\<close>

theorem page_load_currentName:
  "currentName (page_load d) =
     (case getItem (localStorage d) storage_key of
        None \<Rightarrow> str ''Lovie''
      | Some v \<Rightarrow> if trim v = [] then str ''Lovie'' else trim v) \<and>
   nameModal (page_load d) = nameModal d \<and>
   localStorage (page_load d) = localStorage d \<and>
   (\<forall>v l. getItem (localStorage d) storage_key = Some v \<longrightarrow> trim v \<noteq> [] \<longrightarrow>
      recipientName d = Some l \<longrightarrow>
      map_option textContent (recipientName (run [Elapse 150, RunTimers] (page_load d)))
        = Some (trim v))"
proof -
  have "map_option textContent (recipientName (run [Elapse 150, RunTimers] (page_load d)))
        = Some (trim v)"
    if v: "getItem (localStorage d) storage_key = Some v" "trim v \<noteq> []"
      and l: "recipientName d = Some l" for v l
  proof -
    let ?s = "elapse 150 (page_load d)"
    have "recipientName ?s \<noteq> None"
      using l by (simp add: elapse_def page_load_fields)
    moreover have "filter (\<lambda>t. fst t \<le> clock ?s) (timers ?s)
        = [] @ [(clock ?s, SetLabel (trim v))]"
      using v l by (simp add: elapse_def page_load_fields split: option.splits)
    ultimately have "map_option textContent (recipientName (run_timers ?s)) = Some (trim v)"
      by (rule run_timers_last_label)
    then show ?thesis by (simp add: run_def)
  qed
  then show ?thesis
    by (simp add: page_load_fields)
qed

theorem page_load_currentName_witness:
  "currentName (page_load sample_document) = str ''Lovie'' \<and>
   currentName (page_load (document_with_stored (str ''   ''))) = str ''Lovie'' \<and>
   currentName (page_load (document_with_stored (str ''Sam''))) = str ''Sam'' \<and>
   nameModal (page_load (document_with_stored (str ''Sam''))) = Some \<lparr>active = False\<rparr> \<and>
   map_option textContent
     (recipientName (run [Elapse 150, RunTimers] (page_load (document_with_stored (str ''Sam'')))))
     = Some (str ''Sam'')"
proof -
  have sam: "trim (str ''Sam'') = str ''Sam''" "str ''Sam'' \<noteq> []"
    by (simp_all add: trim_def str_def isWhiteSpace_def)
  have stored: "getItem (localStorage (document_with_stored v)) storage_key = Some v"
    "recipientName (document_with_stored v)
       = Some \<lparr>textContent = str ''Lovie'', loading = False, animation = []\<rparr>"
    "nameModal (document_with_stored v) = Some \<lparr>active = False\<rparr>" for v
    by (simp_all add: document_with_stored_def sample_document_def getItem_def)
  have none: "getItem (localStorage sample_document) storage_key = None"
    by (simp add: sample_document_def getItem_def)
  show ?thesis
    using page_load_currentName [of sample_document]
      page_load_currentName [of "document_with_stored (str ''   '')"]
      page_load_currentName [of "document_with_stored (str ''Sam'')"]
    by (simp add: stored none sam long_draft_facts)
qed

section \<open>Steps that leave the animation and the name alone\<close>

lemma ordinary_refl: "ordinary s s"
  by (simp add: ordinary_def)

lemma ordinary_trans: "ordinary s s' \<Longrightarrow> ordinary s' s'' \<Longrightarrow> ordinary s s''"
proof -
  assume a: "ordinary s s'" and b: "ordinary s' s''"
  have "next_node s \<le> next_node s''"
    using a b unfolding ordinary_def by (meson order_trans)
  moreover have "\<forall>d. (d, EndAnimation) \<in> set (timers s) \<longrightarrow> (d, EndAnimation) \<in> set (timers s'')"
    using a b unfolding ordinary_def by blast
  moreover have "\<forall>pre a. tm_ok (pre @ timers s) (next_node s) a \<longrightarrow>
      tm_ok (pre @ timers s'') (next_node s'') a"
    using a b unfolding ordinary_def by blast
  moreover have "isAnimating s'' = isAnimating s \<and> playAnimationBtn s'' = playAnimationBtn s \<and>
     clock s'' = clock s"
    using a b unfolding ordinary_def by simp
  ultimately show ?thesis
    unfolding ordinary_def by blast
qed

lemma ordinary_upd [simp]:
  "ordinary s (s'\<lparr>currentName := n\<rparr>) = ordinary s s'"
  "ordinary s (s'\<lparr>localStorage := st\<rparr>) = ordinary s s'"
  "ordinary s (s'\<lparr>recipientName := l\<rparr>) = ordinary s s'"
  "ordinary s (s'\<lparr>nameModal := m\<rparr>) = ordinary s s'"
  "ordinary s (s'\<lparr>nameInput := i\<rparr>) = ordinary s s'"
  "ordinary s (s'\<lparr>saveNameBtn := b\<rparr>) = ordinary s s'"
  "ordinary s (s'\<lparr>messageSection := c\<rparr>) = ordinary s s'"
  "ordinary s (s'\<lparr>body_overflow := v\<rparr>) = ordinary s s'"
  "ordinary s (s'\<lparr>focused := f\<rparr>) = ordinary s s'"
  "ordinary s (s'\<lparr>announcements := as\<rparr>) = ordinary s s'"
  "ordinary s (s'\<lparr>notifications := ns\<rparr>) = ordinary s s'"
  by (simp_all add: ordinary_def)

lemma tm_ok_snoc:
  "tm_ok ts n a \<Longrightarrow> snd t \<noteq> EndAnimation \<Longrightarrow> n \<le> n' \<Longrightarrow>
   (\<forall>i. snd t = RemoveAnnouncement i \<longrightarrow> i < n') \<Longrightarrow> tm_ok (ts @ [t]) n' a"
  by (cases t) (fastforce simp: tm_ok_def)

lemma tm_ok_more_nodes: "tm_ok ts n a \<Longrightarrow> n \<le> n' \<Longrightarrow> tm_ok ts n' a"
  by (fastforce simp: tm_ok_def)

lemma ordinary_setTimeout:
  assumes "a \<noteq> EndAnimation" and "\<forall>i. a = RemoveAnnouncement i \<longrightarrow> i < next_node s'"
    and "ordinary s s'"
  shows "ordinary s (setTimeout a d s')"
proof -
  have "tm_ok (pre @ timers s' @ [(clock s' + d, a)]) (next_node s') b"
    if "tm_ok (pre @ timers s') (next_node s') b" for pre b
    using tm_ok_snoc [OF that, of "(clock s' + d, a)" "next_node s'"] assms(1,2) by simp
  then have "ordinary s' (setTimeout a d s')"
    by (simp add: ordinary_def setTimeout_def)
  with assms(3) show ?thesis by (rule ordinary_trans)
qed

lemma ordinary_new_node:
  assumes "ordinary s s'" and "next_node s' \<le> n"
  shows "ordinary s (s'\<lparr>next_node := n\<rparr>)"
proof -
  have "ordinary s' (s'\<lparr>next_node := n\<rparr>)"
    using assms(2) by (auto simp: ordinary_def intro: tm_ok_more_nodes)
  with assms(1) show ?thesis by (rule ordinary_trans)
qed

lemma ordinary_announce:
  "ordinary s s' \<Longrightarrow> ordinary s (announceToScreenReader m s')"
  unfolding announceToScreenReader_def
  by (rule ordinary_setTimeout) (auto intro!: ordinary_new_node)

lemma ordinary_updateDisplayedName:
  "ordinary s s' \<Longrightarrow> ordinary s (updateDisplayedName n s')"
  by (auto simp: updateDisplayedName_def split: option.splits intro!: ordinary_setTimeout)

lemma ordinary_openModal: "ordinary s s' \<Longrightarrow> ordinary s (openModal s')"
  by (auto simp: openModal_def split: option.splits intro!: ordinary_announce)

lemma ordinary_closeModal: "ordinary s s' \<Longrightarrow> ordinary s (closeModal s')"
  by (auto simp: closeModal_def split: option.splits intro!: ordinary_announce)

lemma ordinary_showInputError: "ordinary s s' \<Longrightarrow> ordinary s (showInputError m s')"
  by (auto simp: showInputError_def split: option.splits intro!: ordinary_announce)

lemma ordinary_clearInputError: "ordinary s s' \<Longrightarrow> ordinary s (clearInputError s')"
  by (auto simp: clearInputError_def split: option.splits)

lemma ordinary_showSuccessMessage: "ordinary s s' \<Longrightarrow> ordinary s (showSuccessMessage m s')"
  by (auto simp: showSuccessMessage_def split: option.splits
      intro!: ordinary_setTimeout ordinary_new_node)

lemma ordinary_window_error: "ordinary s s' \<Longrightarrow> ordinary s (window_error e s')"
  by (auto simp: window_error_def intro!: ordinary_setTimeout ordinary_new_node)

lemma ordinary_validateInput: "ordinary s s' \<Longrightarrow> ordinary s (validateInput s')"
  by (auto simp: validateInput_def Let_def split: option.splits
      intro!: ordinary_showInputError ordinary_clearInputError)

lemma ordinary_saveName: "ordinary s s' \<Longrightarrow> ordinary s (uncaught (saveName s'))"
  by (auto simp: saveName_def uncaught_def Let_def setItem_def split: option.splits
      intro!: ordinary_showInputError ordinary_announce ordinary_showSuccessMessage
        ordinary_closeModal ordinary_updateDisplayedName ordinary_window_error)

lemma length_filter_filter_le:
  "length (filter P (filter Q xs)) \<le> length (filter P xs)"
  by (induction xs) auto

lemma tm_ok_filter:
  "tm_ok (pre @ ts) n a \<Longrightarrow> tm_ok (pre @ filter Q ts) n a"
  using length_filter_filter_le [of "\<lambda>t. snd t = EndAnimation" Q ts]
  by (auto simp: tm_ok_def)

lemma ordinary_debounced_handleResize:
  assumes "ordinary s s'"
  shows "ordinary s (debounced_handleResize s')"
proof -
  have "ordinary s' (s'\<lparr>timers := filter (\<lambda>t. snd t \<noteq> ResizeLater) (timers s')\<rparr>)"
    by (auto simp: ordinary_def intro: tm_ok_filter)
  then show ?thesis
    unfolding debounced_handleResize_def
    by (intro ordinary_setTimeout ordinary_trans [OF assms]) simp_all
qed

lemma same_name_refl: "same_name s s"
  by (simp add: same_name_def)

lemma same_name_trans: "same_name s s' \<Longrightarrow> same_name s' s'' \<Longrightarrow> same_name s s''"
  by (simp add: same_name_def)

lemma same_name_upd [simp]:
  "same_name s (s'\<lparr>isAnimating := a\<rparr>) = same_name s s'"
  "same_name s (s'\<lparr>recipientName := l\<rparr>) = same_name s s'"
  "same_name s (s'\<lparr>playAnimationBtn := p\<rparr>) = same_name s s'"
  "same_name s (s'\<lparr>nameModal := m\<rparr>) = same_name s s'"
  "same_name s (s'\<lparr>nameInput := i\<rparr>) = same_name s s'"
  "same_name s (s'\<lparr>saveNameBtn := b\<rparr>) = same_name s s'"
  "same_name s (s'\<lparr>messageSection := c\<rparr>) = same_name s s'"
  "same_name s (s'\<lparr>cake := k\<rparr>) = same_name s s'"
  "same_name s (s'\<lparr>body_overflow := v\<rparr>) = same_name s s'"
  "same_name s (s'\<lparr>focused := f\<rparr>) = same_name s s'"
  "same_name s (s'\<lparr>announcements := as\<rparr>) = same_name s s'"
  "same_name s (s'\<lparr>notifications := ns\<rparr>) = same_name s s'"
  "same_name s (s'\<lparr>next_node := n\<rparr>) = same_name s s'"
  "same_name s (s'\<lparr>clock := t\<rparr>) = same_name s s'"
  "same_name s (s'\<lparr>timers := ts\<rparr>) = same_name s s'"
  by (simp_all add: same_name_def)

lemma same_name_setTimeout [simp]: "same_name s (setTimeout a d s') = same_name s s'"
  by (simp add: setTimeout_def)

lemma same_name_announce [simp]:
  "same_name s (announceToScreenReader m s') = same_name s s'"
  by (simp add: announceToScreenReader_def)

lemma same_name_updateDisplayedName [simp]:
  "same_name s (updateDisplayedName n s') = same_name s s'"
  by (simp add: updateDisplayedName_def split: option.splits)

lemma same_name_openModal [simp]: "same_name s (openModal s') = same_name s s'"
  by (simp add: openModal_def split: option.splits)

lemma same_name_closeModal [simp]: "same_name s (closeModal s') = same_name s s'"
  by (simp add: closeModal_def split: option.splits)

lemma same_name_showInputError [simp]: "same_name s (showInputError m s') = same_name s s'"
  by (simp add: showInputError_def split: option.splits)

lemma same_name_clearInputError [simp]: "same_name s (clearInputError s') = same_name s s'"
  by (simp add: clearInputError_def split: option.splits)

lemma same_name_showSuccessMessage [simp]:
  "same_name s (showSuccessMessage m s') = same_name s s'"
  by (simp add: showSuccessMessage_def split: option.splits)

lemma same_name_window_error [simp]: "same_name s (window_error e s') = same_name s s'"
  by (simp add: window_error_def)

lemma same_name_validateInput [simp]: "same_name s (validateInput s') = same_name s s'"
  by (simp add: validateInput_def Let_def split: option.splits)

lemma same_name_debounced_handleResize [simp]:
  "same_name s (debounced_handleResize s') = same_name s s'"
  by (simp add: debounced_handleResize_def)

lemma same_name_replayAnimation [simp]:
  "same_name s (uncaught (replayAnimation s')) = same_name s s'"
  by (simp add: replayAnimation_def uncaught_def Let_def split: option.splits)

lemma same_name_handleKeyboardNavigation [simp]:
  "same_name s (uncaught (handleKeyboardNavigation k c s')) = same_name s s'"
proof -
  have "same_name s (uncaught (None, s'')) = same_name s s''" for s''
    by (simp add: uncaught_def)
  then show ?thesis
    by (simp add: handleKeyboardNavigation_def Let_def split: key.splits)
qed

lemma same_name_fire [simp]: "same_name s (uncaught (fire a s')) = same_name s s'"
  by (cases a) (simp_all add: uncaught_def Let_def split: option.splits)

lemma same_name_fold_fire [simp]:
  "same_name s (fold (\<lambda>t s'. uncaught (fire (snd t) s')) ts s') = same_name s s'"
  by (induction ts arbitrary: s') (simp_all del: fire.simps)

lemma same_name_run_timers [simp]: "same_name s (run_timers s') = same_name s s'"
  by (simp add: run_timers_def)

lemma same_name_elapse [simp]: "same_name s (elapse n s') = same_name s s'"
  by (simp add: elapse_def)

text \<open>Timer callbacks other than the end of the animation.\<close>

lemma ordinary_fire:
  assumes "a \<noteq> EndAnimation" and "ordinary s s'"
  shows "ordinary s (uncaught (fire a s'))"
  using assms
  by (cases a)
    (auto simp: uncaught_def split: option.splits
      intro!: ordinary_window_error ordinary_setTimeout)

lemma ordinary_fold_fire:
  assumes "\<forall>t\<in>set ts. snd t \<noteq> EndAnimation" and "ordinary s s'"
  shows "ordinary s (fold (\<lambda>t s'. uncaught (fire (snd t) s')) ts s')"
  using assms
  by (induction ts arbitrary: s') (simp_all add: ordinary_fire del: fire.simps)

section \<open>What an event does to the name and the store\<close>

lemma dispatch_without_save:
  "\<not> save_runs e s \<Longrightarrow> same_name s (dispatch e s)"
  by (cases e)
    (auto simp: save_runs_def same_name_refl split: option.splits)

lemma dispatch_with_save: "save_runs e s \<Longrightarrow> dispatch e s = uncaught (saveName s)"
  by (cases e) (auto simp: save_runs_def split: option.splits)

lemma saveName_invalid_same_name:
  "\<not> draft_valid s \<Longrightarrow> same_name s (uncaught (saveName s))"
  by (auto simp: draft_valid_def draft_def saveName_def uncaught_def Let_def same_name_refl
      split: option.splits)

lemma valid_save_name:
  assumes "draft_valid s"
  shows "currentName (uncaught (saveName s)) = draft s"
    and "localStorage (uncaught (saveName s)) =
      (if quota_exceeded (localStorage s) then localStorage s
       else (localStorage s)\<lparr>items := (items (localStorage s))(storage_key \<mapsto> draft s)\<rparr>)"
proof -
  obtain i where i: "nameInput s = Some i" "trim (input_value i) \<noteq> []"
      "length (trim (input_value i)) \<le> 20" "draft s = trim (input_value i)"
    using assms by (auto simp: draft_valid_def draft_def split: option.splits)
  have u: "same_name s' (updateDisplayedName n s')" for n s'
    by (simp add: same_name_refl)
  show "currentName (uncaught (saveName s)) = draft s"
  proof (cases "quota_exceeded (localStorage s)")
    case True
    then show ?thesis
      using saveName_refused [OF i(1-3) True] i(4)
      by (simp add: uncaught_def window_error_def setTimeout_def updateDisplayedName_fields)
  next
    case False
    then show ?thesis
      using saveName_accepts [OF i(1-3) False] i(4) by (simp add: uncaught_def)
  qed
  show "localStorage (uncaught (saveName s)) =
      (if quota_exceeded (localStorage s) then localStorage s
       else (localStorage s)\<lparr>items := (items (localStorage s))(storage_key \<mapsto> draft s)\<rparr>)"
  proof (cases "quota_exceeded (localStorage s)")
    case True
    then show ?thesis
      using saveName_refused [OF i(1-3) True]
      by (simp add: uncaught_def window_error_def setTimeout_def updateDisplayedName_fields)
  next
    case False
    then show ?thesis
      using saveName_accepts [OF i(1-3) False] i(4) by (simp add: uncaught_def)
  qed
qed

lemma dispatch_currentName:
  "currentName (dispatch e s) = (if save_runs e s \<and> draft_valid s then draft s else currentName s)"
proof (cases "save_runs e s")
  case True
  show ?thesis
  proof (cases "draft_valid s")
    case True
    with \<open>save_runs e s\<close> show ?thesis
      by (simp add: dispatch_with_save valid_save_name(1))
  next
    case False
    with \<open>save_runs e s\<close> show ?thesis
      using saveName_invalid_same_name [OF False]
      by (simp add: dispatch_with_save same_name_def)
  qed
next
  case False
  then show ?thesis
    using dispatch_without_save [OF False] by (simp add: same_name_def)
qed

lemma dispatch_localStorage:
  "localStorage (dispatch e s) =
     (if save_runs e s \<and> draft_valid s \<and> \<not> quota_exceeded (localStorage s)
      then (localStorage s)\<lparr>items := (items (localStorage s))(storage_key \<mapsto> draft s)\<rparr>
      else localStorage s)"
proof (cases "save_runs e s")
  case True
  show ?thesis
  proof (cases "draft_valid s")
    case True
    with \<open>save_runs e s\<close> show ?thesis
      by (simp add: dispatch_with_save valid_save_name(2))
  next
    case False
    with \<open>save_runs e s\<close> show ?thesis
      using saveName_invalid_same_name [OF False]
      by (simp add: dispatch_with_save same_name_def)
  qed
next
  case False
  then show ?thesis
    using dispatch_without_save [OF False] by (simp add: same_name_def)
qed

lemma trim_draft: "trim (draft s) = draft s"
  by (simp add: draft_def trim_idem trim_Nil split: option.splits)

lemma name_inv_page_load: "name_inv d (page_load d)"
  by (auto simp: name_inv_def page_load_fields startup_name_def stored_name_fits_def
      lovie_facts trim_idem split: option.splits)

lemma name_inv_dispatch:
  assumes "name_inv d s"
  shows "name_inv d (dispatch e s)"
proof (cases "save_runs e s \<and> draft_valid s")
  case True
  then have v: "draft s \<noteq> []" "length (draft s) \<le> 20"
    by (simp_all add: draft_valid_def)
  show ?thesis
    using assms True v
    by (auto simp: name_inv_def dispatch_currentName dispatch_localStorage trim_draft
        startup_name_def getItem_def)
next
  case False
  then show ?thesis
    using assms by (auto simp: name_inv_def dispatch_currentName dispatch_localStorage)
qed

lemma name_inv_run: "name_inv d s \<Longrightarrow> name_inv d (run evs s)"
  unfolding run_def by (induction evs arbitrary: s) (simp_all add: name_inv_dispatch)

section \<open>The current name in every reachable state\<close>

text \<open>
  C4 as stated (in every reachable state \<^verbatim>\<open>currentName\<close> has at most 20 characters and
  mirrors the persisted value) fails in three ways: \<^verbatim>\<open>loadSavedName\<close> takes a stored
  name of any length; after a load from an empty store \<^verbatim>\<open>currentName\<close> is \<^verbatim>\<open>Lovie\<close>
  and nothing is persisted; and when the store refuses the write, \<^verbatim>\<open>saveName\<close> has
  already set \<^verbatim>\<open>currentName\<close>.
\<close>

theorem currentName_not_always_bounded_or_persisted:
  "20 < length (currentName (page_load (document_with_stored (str ''A very very long name indeed'')))) \<and>
   currentName (page_load sample_document) = str ''Lovie'' \<and>
   getItem (localStorage (page_load sample_document)) storage_key = None \<and>
   currentName (dispatch (KeyPress Enter) (editing refusing_document (str ''Alex''))) = str ''Alex'' \<and>
   getItem (localStorage (dispatch (KeyPress Enter) (editing refusing_document (str ''Alex''))))
     storage_key = None"
proof -
  have "20 < length (currentName (page_load (document_with_stored (str ''A very very long name indeed''))))"
    by (simp add: page_load_fields document_with_stored_def sample_document_def getItem_def
        long_draft_facts)
  moreover have "currentName (page_load sample_document) = str ''Lovie'' \<and>
      getItem (localStorage (page_load sample_document)) storage_key = None"
    by (simp add: page_load_fields sample_document_def getItem_def)
  moreover have "currentName (dispatch (KeyPress Enter) (editing refusing_document (str ''Alex'')))
        = str ''Alex'' \<and>
      getItem (localStorage (dispatch (KeyPress Enter) (editing refusing_document (str ''Alex''))))
        storage_key = None"
    by (simp add: sample_defs refusing_document_def script_defs padded_alex_facts alex_facts)
  ultimately show ?thesis by simp
qed

text \<open>
  C4, amended: in every state reached from a page load by any events, \<^verbatim>\<open>currentName\<close>
  is non-empty and has no white space at its ends; it has at most 20 characters provided
  the name stored at load time, trimmed, has at most 20; provided the store accepts
  writes, it is the name a load from the present store would give (the trimmed stored
  value, or \<^verbatim>\<open>Lovie\<close> when nothing non-blank is stored); an event changes it only by
  reaching \<^verbatim>\<open>saveName\<close> with a valid draft, to the trimmed draft; and such a save, when
  the store accepts writes, leaves exactly \<^verbatim>\<open>currentName\<close> persisted.
\<close>

theorem currentName_in_reachable_states:
  assumes "s = run evs (page_load d)"
  shows "currentName s \<noteq> [] \<and> trim (currentName s) = currentName s \<and>
     (stored_name_fits (localStorage d) \<longrightarrow> length (currentName s) \<le> 20) \<and>
     (\<not> quota_exceeded (localStorage d) \<longrightarrow> currentName s = startup_name (localStorage s)) \<and>
     (\<forall>e. currentName (dispatch e s) =
        (if save_runs e s \<and> draft_valid s then draft s else currentName s)) \<and>
     (\<forall>e. save_runs e s \<and> draft_valid s \<and> \<not> quota_exceeded (localStorage d) \<longrightarrow>
        getItem (localStorage (dispatch e s)) storage_key = Some (currentName (dispatch e s)))"
proof -
  have "name_inv d s"
    unfolding assms by (intro name_inv_run name_inv_page_load)
  then show ?thesis
    by (auto simp: name_inv_def dispatch_currentName dispatch_localStorage getItem_def)
qed

theorem currentName_in_reachable_states_witness:
  "stored_name_fits (localStorage sample_document) \<and>
   \<not> quota_exceeded (localStorage sample_document) \<and>
   save_runs (KeyPress Enter) (editing sample_document (str ''  Alex  '')) \<and>
   draft_valid (editing sample_document (str ''  Alex  '')) \<and>
   currentName (dispatch (KeyPress Enter) (editing sample_document (str ''  Alex  ''))) = str ''Alex'' \<and>
   getItem (localStorage (dispatch (KeyPress Enter) (editing sample_document (str ''  Alex  ''))))
     storage_key = Some (str ''Alex'') \<and>
   length (currentName (dispatch (KeyPress Enter) (editing sample_document (str ''  Alex  '')))) \<le> 20 \<and>
   currentName (dispatch (KeyPress Enter) (editing sample_document (str ''  Alex  ''))) =
   startup_name (localStorage (dispatch (KeyPress Enter) (editing sample_document (str ''  Alex  ''))))"
proof -
  let ?S = "editing sample_document (str ''  Alex  '')"
  have doc: "stored_name_fits (localStorage sample_document)"
    "\<not> quota_exceeded (localStorage sample_document)"
    by (simp_all add: stored_name_fits_def sample_document_def getItem_def)
  have "nameInput ?S
       = Some \<lparr>input_value = str ''  Alex  '', borderColor = [], boxShadow = [],
               errorMessages = Some []\<rparr>"
    by (simp add: sample_defs script_defs spaced_alex_facts padded_alex_facts str_def)
  then have ok: "save_runs (KeyPress Enter) ?S" "draft_valid ?S" "draft ?S = str ''Alex''"
    by (simp_all add: save_runs_def draft_valid_def draft_def spaced_alex_facts padded_alex_facts)
  have before: "?S = run [ClickChangeName, Input (str ''  Alex  '')] (page_load sample_document)"
    by (simp add: editing_def)
  have after: "dispatch (KeyPress Enter) ?S =
      run [ClickChangeName, Input (str ''  Alex  ''), KeyPress Enter] (page_load sample_document)"
    by (simp add: editing_def run_def del: dispatch.simps)
  have "currentName (dispatch (KeyPress Enter) ?S) = str ''Alex'' \<and>
      getItem (localStorage (dispatch (KeyPress Enter) ?S)) storage_key = Some (str ''Alex'')"
    using currentName_in_reachable_states [OF before] doc ok
    by (simp del: dispatch.simps)
  moreover have "length (currentName (dispatch (KeyPress Enter) ?S)) \<le> 20 \<and>
      currentName (dispatch (KeyPress Enter) ?S)
        = startup_name (localStorage (dispatch (KeyPress Enter) ?S))"
    using currentName_in_reachable_states [OF after] doc
    by blast
  ultimately show ?thesis
    using doc ok by blast
qed

section \<open>The pending timeouts stay in order\<close>

lemma tm_ok_tail: "tm_ok (t # ts) n a \<Longrightarrow> tm_ok ts n a"
  by (auto simp: tm_ok_def split: if_splits)

lemma tm_ok_end_head:
  "tm_ok ((d, EndAnimation) # ts) n a \<Longrightarrow> a \<and> tm_ok ts n False"
  by (auto simp: tm_ok_def split: if_splits)

lemma filter_length_le_1_unique:
  "length (filter P xs) \<le> 1 \<Longrightarrow> x \<in> set xs \<Longrightarrow> P x \<Longrightarrow> y \<in> set xs \<Longrightarrow> P y \<Longrightarrow> x = y"
proof (induction xs)
  case Nil
  then show ?case by simp
next
  case (Cons z zs)
  show ?case
  proof (cases "P z")
    case True
    with Cons.prems(1) have "filter P zs = []" by simp
    then have "\<forall>w\<in>set zs. \<not> P w" by (simp add: filter_empty_conv)
    with Cons.prems show ?thesis by auto
  next
    case False
    with Cons show ?thesis by auto
  qed
qed

lemma tm_ok_end_unique:
  assumes "tm_ok ts n a" and "(d, EndAnimation) \<in> set ts" and "(d', EndAnimation) \<in> set ts"
  shows "d = d'"
proof -
  have "length (filter (\<lambda>t. snd t = EndAnimation) ts) \<le> 1"
    using assms(1) by (auto simp: tm_ok_def split: if_splits)
  from filter_length_le_1_unique [OF this assms(2) _ assms(3)] show ?thesis by simp
qed

lemma length_filter_partition:
  "length (filter Q (filter P xs)) + length (filter Q (filter (\<lambda>x. \<not> P x) xs))
     = length (filter Q xs)"
  by (induction xs) auto

lemma tm_ok_due_split:
  assumes "tm_ok ts n a"
  shows "tm_ok (sort_key fst (filter P ts) @ filter (\<lambda>t. \<not> P t) ts) n a"
proof -
  have "length (filter (\<lambda>t. snd t = EndAnimation) (sort_key fst (filter P ts)))
      = length (filter (\<lambda>t. snd t = EndAnimation) (filter P ts))"
    by (simp add: filter_sort)
  then have "length (filter (\<lambda>t. snd t = EndAnimation)
        (sort_key fst (filter P ts) @ filter (\<lambda>t. \<not> P t) ts))
      = length (filter (\<lambda>t. snd t = EndAnimation) ts)"
    using length_filter_partition [of "\<lambda>t. snd t = EndAnimation" P ts] by simp
  then show ?thesis
    using assms by (auto simp: tm_ok_def)
qed

lemma ordinary_tm_ok:
  assumes "ordinary s s'" and "tm_ok (pre @ timers s) (next_node s) (isAnimating s)"
  shows "tm_ok (pre @ timers s') (next_node s') (isAnimating s')"
proof -
  have step: "\<forall>pre a. tm_ok (pre @ timers s) (next_node s) a \<longrightarrow>
      tm_ok (pre @ timers s') (next_node s') a"
    and same: "isAnimating s' = isAnimating s"
    using assms(1) by (simp_all add: ordinary_def)
  from step [rule_format, of pre "isAnimating s"] assms(2) show ?thesis
    by (simp add: same)
qed

lemma timers_inv_ordinary: "ordinary s s' \<Longrightarrow> timers_inv s \<Longrightarrow> timers_inv s'"
  using ordinary_tm_ok [of s s' "[]"] by (simp add: timers_inv_def)

lemma tm_ok_start:
  "tm_ok ts n False \<Longrightarrow> tm_ok (ts @ [(d, EndAnimation)]) n True"
  by (auto simp: tm_ok_def)

lemma tm_ok_busy: "tm_ok ts n False \<Longrightarrow> tm_ok ts n True"
  by (auto simp: tm_ok_def)

lemma fire_EndAnimation_fields:
  "isAnimating (uncaught (fire EndAnimation s)) = False"
  "clock (uncaught (fire EndAnimation s)) = clock s"
  "next_node (uncaught (fire EndAnimation s)) = Suc (next_node s)"
  "playAnimationBtn (uncaught (fire EndAnimation s))
     = map_option (\<lambda>b. b\<lparr>disabled := False, btn_loading := False\<rparr>) (playAnimationBtn s)"
  "timers (uncaught (fire EndAnimation s)) = timers s @
     [(case playAnimationBtn s of
         None \<Rightarrow> (clock s + 5000, RemoveNotification (next_node s))
       | Some b \<Rightarrow> (clock s + 1000, RemoveAnnouncement (next_node s)))]"
  "playAnimationBtn s \<noteq> None \<Longrightarrow>
     announcements (uncaught (fire EndAnimation s))
       = announcements s @ [(next_node s, str ''Cake animation completed'')]"
  by (auto simp: uncaught_def window_error_def announceToScreenReader_def setTimeout_def Let_def
      split: option.splits)

lemma tm_ok_fire_EndAnimation:
  assumes "tm_ok ((d, EndAnimation) # ts @ timers s) (next_node s) (isAnimating s)"
  shows "tm_ok (ts @ timers (uncaught (fire EndAnimation s)))
           (next_node (uncaught (fire EndAnimation s)))
           (isAnimating (uncaught (fire EndAnimation s)))"
proof -
  have "tm_ok (ts @ timers s) (next_node s) False"
    using tm_ok_end_head [OF assms] by simp
  then have "tm_ok ((ts @ timers s) @
      [(case playAnimationBtn s of
         None \<Rightarrow> (clock s + 5000, RemoveNotification (next_node s))
       | Some b \<Rightarrow> (clock s + 1000, RemoveAnnouncement (next_node s)))])
      (Suc (next_node s)) False"
    by (rule tm_ok_snoc) (auto split: option.splits)
  then show ?thesis
    by (simp add: fire_EndAnimation_fields del: fire.simps)
qed

lemma tm_ok_fold_fire:
  "tm_ok (ts @ timers s) (next_node s) (isAnimating s) \<Longrightarrow>
   timers_inv (fold (\<lambda>t s'. uncaught (fire (snd t) s')) ts s)"
proof (induction ts arbitrary: s)
  case Nil
  then show ?case by (simp add: timers_inv_def)
next
  case (Cons t ts)
  have "tm_ok (ts @ timers (uncaught (fire (snd t) s)))
          (next_node (uncaught (fire (snd t) s))) (isAnimating (uncaught (fire (snd t) s)))"
  proof (cases "snd t = EndAnimation")
    case True
    then obtain d where "t = (d, EndAnimation)" by (cases t) simp
    with Cons.prems show ?thesis
      using tm_ok_fire_EndAnimation [of d ts s] by simp
  next
    case False
    have "ordinary s (uncaught (fire (snd t) s))"
      using False by (intro ordinary_fire ordinary_refl)
    moreover have "tm_ok (ts @ timers s) (next_node s) (isAnimating s)"
      using Cons.prems tm_ok_tail [of t "ts @ timers s"] by simp
    ultimately show ?thesis
      by (rule ordinary_tm_ok)
  qed
  then show ?case
    using Cons.IH by (simp del: fire.simps)
qed

lemma timers_inv_run_timers: "timers_inv s \<Longrightarrow> timers_inv (run_timers s)"
  unfolding run_timers_def due_timers_def
  by (rule tm_ok_fold_fire) (simp add: timers_inv_def tm_ok_due_split)

lemma replayAnimation_started:
  assumes "\<not> isAnimating s" and "cake s = Some c" and "playAnimationBtn s = Some b"
  shows "fst (replayAnimation s) = None"
    and "isAnimating (snd (replayAnimation s))"
    and "playAnimationBtn (snd (replayAnimation s)) = Some (b\<lparr>disabled := True, btn_loading := True\<rparr>)"
    and "clock (snd (replayAnimation s)) = clock s"
    and "next_node (snd (replayAnimation s)) = Suc (next_node s)"
    and "timers (snd (replayAnimation s)) = timers s @
      [(clock s + 4000, EndAnimation), (clock s + 1000, RemoveAnnouncement (next_node s))]"
    and "cake (snd (replayAnimation s)) = Some (map Suc c)"
    and "announcements (snd (replayAnimation s))
      = announcements s @ [(next_node s, str ''Cake animation started'')]"
  using assms
  by (simp_all add: replayAnimation_def Let_def announceToScreenReader_def setTimeout_def)

lemma tm_ok_idle_no_end:
  "tm_ok ts n False \<Longrightarrow> \<forall>t\<in>set ts. snd t \<noteq> EndAnimation"
  by (simp add: tm_ok_def filter_empty_conv)

lemma timers_inv_replayAnimation:
  assumes "timers_inv s"
  shows "timers_inv (uncaught (replayAnimation s))"
proof (cases "isAnimating s \<or> cake s = None")
  case True
  then show ?thesis
    using assms by (auto simp: replayAnimation_def uncaught_def)
next
  case False
  then obtain c where c: "\<not> isAnimating s" "cake s = Some c" by auto
  have idle: "tm_ok (timers s) (next_node s) False"
    using assms c(1) by (simp add: timers_inv_def)
  show ?thesis
  proof (cases "playAnimationBtn s")
    case None
    have "tm_ok (timers s @ [(clock s + 5000, RemoveNotification (next_node s))])
        (Suc (next_node s)) True"
      by (rule tm_ok_snoc [OF tm_ok_busy [OF idle]]) simp_all
    then show ?thesis
      using c None
      by (simp add: replayAnimation_def uncaught_def window_error_def setTimeout_def timers_inv_def)
  next
    case (Some b)
    have "tm_ok ((timers s @ [(clock s + 4000, EndAnimation)]) @
        [(clock s + 1000, RemoveAnnouncement (next_node s))]) (Suc (next_node s)) True"
      by (rule tm_ok_snoc [OF tm_ok_start [OF idle]]) simp_all
    then show ?thesis
      using replayAnimation_started [OF c Some]
      by (simp add: uncaught_def timers_inv_def)
  qed
qed

lemma handleKeyboardNavigation_cases:
  "handleKeyboardNavigation k c s =
     (if c \<and> k = KeyR then replayAnimation s
      else (None, if c \<and> k = KeyE then openModal s
                  else if k = Escape \<and> modal_is_active s then closeModal s
                  else s))"
  by (cases k) (simp_all add: handleKeyboardNavigation_def)

lemma dispatch_KeyDown:
  "dispatch (KeyDown k c) s =
     (if c \<and> k = KeyR then uncaught (replayAnimation s)
      else if c \<and> k = KeyE then openModal s
      else if k = Escape \<and> modal_is_active s then closeModal s
      else s)"
  by (simp add: handleKeyboardNavigation_cases uncaught_def)

lemma dispatch_cases:
  "(\<exists>n. e = Elapse n) \<or> e = RunTimers \<or> ordinary s (dispatch e s) \<or>
   dispatch e s = uncaught (replayAnimation s)"
proof (cases e)
  case (KeyDown k c)
  then show ?thesis
    by (simp only: dispatch_KeyDown)
      (auto intro!: ordinary_openModal ordinary_closeModal ordinary_refl)
qed (auto split: option.splits
      intro!: ordinary_openModal ordinary_closeModal ordinary_refl ordinary_saveName
        ordinary_validateInput ordinary_debounced_handleResize)

lemma timers_inv_elapse: "timers_inv (elapse n s) = timers_inv s"
  by (simp add: timers_inv_def elapse_def)

lemma timers_inv_dispatch:
  assumes "timers_inv s"
  shows "timers_inv (dispatch e s)"
proof -
  consider n where "e = Elapse n" | "e = RunTimers" | "ordinary s (dispatch e s)"
    | "dispatch e s = uncaught (replayAnimation s)"
    using dispatch_cases [of e s] by blast
  then show ?thesis
  proof cases
    case 1
    then show ?thesis using assms by (simp add: timers_inv_elapse)
  next
    case 2
    then show ?thesis using assms by (simp add: timers_inv_run_timers)
  next
    case 3
    then show ?thesis using assms by (rule timers_inv_ordinary)
  next
    case 4
    then show ?thesis using assms by (simp add: timers_inv_replayAnimation del: dispatch.simps)
  qed
qed

lemma timers_inv_run: "timers_inv s \<Longrightarrow> timers_inv (run evs s)"
  unfolding run_def by (induction evs arbitrary: s) (simp_all add: timers_inv_dispatch del: dispatch.simps)

lemma timers_inv_page_load: "timers_inv (page_load d)"
proof -
  have "timers_inv (fresh d)"
    by (simp add: timers_inv_def fresh_def tm_ok_def)
  moreover have "ordinary (fresh d) (page_load d)"
    by (auto simp: page_load_def init_def uncaught_def loadSavedName_def Let_def
        split: option.splits
        intro!: ordinary_window_error ordinary_updateDisplayedName ordinary_refl)
  ultimately show ?thesis
    by (rule timers_inv_ordinary [rotated])
qed

section \<open>The clock and the cooldown\<close>

lemma clock_fire: "clock (uncaught (fire a s)) = clock s"
proof (cases "a = EndAnimation")
  case True
  then show ?thesis by (simp add: fire_EndAnimation_fields del: fire.simps)
next
  case False
  then have "ordinary s (uncaught (fire a s))"
    by (intro ordinary_fire ordinary_refl)
  then show ?thesis by (simp add: ordinary_def)
qed

lemma clock_fold_fire: "clock (fold (\<lambda>t s'. uncaught (fire (snd t) s')) ts s) = clock s"
  by (induction ts arbitrary: s) (simp_all add: clock_fire del: fire.simps)

lemma clock_run_timers: "clock (run_timers s) = clock s"
  by (simp add: run_timers_def clock_fold_fire)

lemma clock_replayAnimation: "clock (uncaught (replayAnimation s)) = clock s"
  by (simp add: replayAnimation_def uncaught_def window_error_def announceToScreenReader_def
      setTimeout_def Let_def split: option.splits)

lemma clock_dispatch:
  "clock (dispatch e s) = clock s + (case e of Elapse n \<Rightarrow> n | _ \<Rightarrow> 0)"
proof -
  consider n where "e = Elapse n" | "e = RunTimers" | "ordinary s (dispatch e s)"
    | "dispatch e s = uncaught (replayAnimation s)" "\<forall>n. e \<noteq> Elapse n"
    using dispatch_cases [of e s] by blast
  then show ?thesis
  proof cases
    case 1
    then show ?thesis by (simp add: elapse_def)
  next
    case 2
    then show ?thesis by (simp add: clock_run_timers)
  next
    case 3
    then have "clock (dispatch e s) = clock s" by (simp add: ordinary_def)
    moreover have "(case e of Elapse n \<Rightarrow> n | _ \<Rightarrow> 0) = 0" if "\<forall>n. e \<noteq> Elapse n"
      using that by (cases e) simp_all
    moreover have "\<forall>n. e \<noteq> Elapse n \<or> clock (dispatch e s) = clock s + n" 
      by (auto simp: elapse_def)
    ultimately show ?thesis by (cases e) (simp_all del: dispatch.simps)
  next
    case 4
    then show ?thesis by (cases e) (simp_all add: clock_replayAnimation del: dispatch.simps)
  qed
qed

lemma clock_run_mono: "clock s \<le> clock (run evs s)"
proof (induction evs arbitrary: s)
  case Nil
  then show ?case by (simp add: run_def)
next
  case (Cons e evs)
  have "clock s \<le> clock (dispatch e s)" by (simp add: clock_dispatch)
  also have "\<dots> \<le> clock (run evs (dispatch e s))" by (rule Cons.IH)
  finally show ?case by (simp add: run_def)
qed

lemma coolingD:
  assumes "cooling D s"
  shows "isAnimating s" and "map_option disabled (playAnimationBtn s) = Some True"
    and "(D, EndAnimation) \<in> set (timers s)" and "timers_inv s"
    and "tm_ok (timers s) (next_node s) True"
  using assms by (auto simp: cooling_def timers_inv_def)

lemma coolingI:
  assumes "isAnimating s" and "map_option disabled (playAnimationBtn s) = Some True"
    and "(D, EndAnimation) \<in> set (timers s)" and "tm_ok (timers s) (next_node s) True"
  shows "cooling D s"
  using assms by (auto simp: cooling_def timers_inv_def)

lemma cooling_ordinary: "cooling D s \<Longrightarrow> ordinary s s' \<Longrightarrow> cooling D s'"
  using timers_inv_ordinary [of s s'] by (auto simp: cooling_def ordinary_def)

lemma cooling_no_due_end:
  assumes "cooling D s" and "clock s < D"
  shows "\<forall>t\<in>set (due_timers s). snd t \<noteq> EndAnimation"
proof
  fix t assume t: "t \<in> set (due_timers s)"
  show "snd t \<noteq> EndAnimation"
  proof
    assume "snd t = EndAnimation"
    then have "t = (fst t, EndAnimation)"
      by (cases t) simp
    then have "(fst t, EndAnimation) \<in> set (timers s)" "fst t \<le> clock s"
      using t by (auto simp: due_timers_def)
    moreover note coolingD(5,3) [OF assms(1)]
    ultimately have "fst t = D" using tm_ok_end_unique by blast
    with \<open>fst t \<le> clock s\<close> assms(2) show False by simp
  qed
qed

lemma cooling_run_timers:
  assumes "cooling D s" and "clock s < D"
  shows "cooling D (run_timers s)"
proof -
  let ?s0 = "s\<lparr>timers := filter (\<lambda>t. \<not> fst t \<le> clock s) (timers s)\<rparr>"
  have "tm_ok ([] @ filter (\<lambda>t. \<not> fst t \<le> clock s) (timers s)) (next_node s) True"
    using coolingD(5) [OF assms(1)] by (intro tm_ok_filter) simp
  then have "cooling D ?s0"
    using coolingD(1-3) [OF assms(1)] assms(2) by (intro coolingI) simp_all
  moreover have "ordinary ?s0 (run_timers s)"
    unfolding run_timers_def
    by (intro ordinary_fold_fire ordinary_refl cooling_no_due_end [OF assms])
  ultimately show ?thesis by (rule cooling_ordinary)
qed

lemma cooling_dispatch:
  assumes "cooling D s" and "clock (dispatch e s) < D"
  shows "cooling D (dispatch e s)"
proof -
  have now: "clock s < D"
    using assms(2) by (simp add: clock_dispatch)
  consider n where "e = Elapse n" | "e = RunTimers" | "ordinary s (dispatch e s)"
    | "dispatch e s = uncaught (replayAnimation s)"
    using dispatch_cases [of e s] by blast
  then show ?thesis
  proof cases
    case 1
    then show ?thesis
      using coolingD [OF assms(1)] by (intro coolingI) (simp_all add: elapse_def)
  next
    case 2
    then show ?thesis using assms(1) now by (simp add: cooling_run_timers)
  next
    case 3
    with assms(1) show ?thesis by (rule cooling_ordinary)
  next
    case 4
    moreover have "uncaught (replayAnimation s) = s"
      using assms(1) by (simp add: cooling_def replayAnimation_def uncaught_def)
    ultimately show ?thesis using assms(1) by (simp del: dispatch.simps)
  qed
qed

lemma cooling_run:
  "cooling D s \<Longrightarrow> clock (run evs s) < D \<Longrightarrow> cooling D (run evs s)"
proof (induction evs arbitrary: s)
  case Nil
  then show ?case by (simp add: run_def)
next
  case (Cons e evs)
  have r: "run (e # evs) s = run evs (dispatch e s)"
    by (simp add: run_def del: dispatch.simps)
  have "clock (dispatch e s) \<le> clock (run evs (dispatch e s))"
    by (rule clock_run_mono)
  with Cons.prems(2) have "clock (dispatch e s) < D"
    unfolding r by simp
  with Cons.prems(1) have "cooling D (dispatch e s)"
    by (rule cooling_dispatch)
  then show ?case
    unfolding r using Cons.prems(2) [unfolded r] by (rule Cons.IH)
qed

lemma cooling_start:
  assumes "timers_inv s" and "\<not> isAnimating s" and "cake s = Some c" and "playAnimationBtn s = Some b"
  shows "cooling (clock s + 4000) (snd (replayAnimation s))"
proof -
  note r = replayAnimation_started [OF assms(2-4)]
  have "timers_inv (uncaught (replayAnimation s))"
    using assms(1) by (rule timers_inv_replayAnimation)
  then have "timers_inv (snd (replayAnimation s))"
    using r(1) by (simp add: uncaught_def)
  then show ?thesis
    using r by (simp add: cooling_def)
qed

lemma fire_keeps_announcement:
  "a \<noteq> RemoveAnnouncement k \<Longrightarrow> (k, m) \<in> set (announcements s) \<Longrightarrow>
   (k, m) \<in> set (announcements (uncaught (fire a s)))"
  by (cases a)
    (auto simp: uncaught_def window_error_def setTimeout_def announceToScreenReader_def Let_def
      split: option.splits)

lemma fold_fire_keeps_announcement:
  "\<forall>t\<in>set ts. snd t \<noteq> RemoveAnnouncement k \<Longrightarrow> (k, m) \<in> set (announcements s) \<Longrightarrow>
   (k, m) \<in> set (announcements (fold (\<lambda>t s'. uncaught (fire (snd t) s')) ts s))"
  by (induction ts arbitrary: s) (simp_all add: fire_keeps_announcement del: fire.simps)

lemma tm_ok_around_end:
  assumes "tm_ok (xs @ (D, EndAnimation) # ys) n a"
  shows "\<forall>t\<in>set xs. snd t \<noteq> EndAnimation" and "\<forall>t\<in>set ys. snd t \<noteq> EndAnimation"
    and "\<forall>t\<in>set ys. \<forall>i. snd t = RemoveAnnouncement i \<longrightarrow> i < n"
proof -
  have "length (filter (\<lambda>t. snd t = EndAnimation) xs)
      + Suc (length (filter (\<lambda>t. snd t = EndAnimation) ys)) \<le> 1"
    using assms by (auto simp: tm_ok_def split: if_splits)
  then have "filter (\<lambda>t. snd t = EndAnimation) xs = []" "filter (\<lambda>t. snd t = EndAnimation) ys = []"
    by simp_all
  then show "\<forall>t\<in>set xs. snd t \<noteq> EndAnimation" "\<forall>t\<in>set ys. snd t \<noteq> EndAnimation"
    by (simp_all add: filter_empty_conv)
  show "\<forall>t\<in>set ys. \<forall>i. snd t = RemoveAnnouncement i \<longrightarrow> i < n"
  proof (intro ballI allI impI)
    fix t i assume "t \<in> set ys" "snd t = RemoveAnnouncement i"
    then have "(fst t, RemoveAnnouncement i) \<in> set ys"
      by (metis prod.collapse)
    then have "(fst t, RemoveAnnouncement i) \<in> set (xs @ (D, EndAnimation) # ys)"
      by simp
    with assms show "i < n" unfolding tm_ok_def by blast
  qed
qed

lemma cooling_finish:
  assumes "cooling D s" and "D \<le> clock s"
  shows "\<not> isAnimating (run_timers s) \<and>
     map_option disabled (playAnimationBtn (run_timers s)) = Some False \<and>
     str ''Cake animation completed'' \<in> snd ` set (announcements (run_timers s))"
proof -
  let ?F = "\<lambda>t s'. uncaught (fire (snd t) s')"
  note c = coolingD [OF assms(1)]
  define s0 where "s0 = s\<lparr>timers := filter (\<lambda>t. \<not> fst t \<le> clock s) (timers s)\<rparr>"
  have "(D, EndAnimation) \<in> set (due_timers s)"
    using c(3) assms(2) by (simp add: due_timers_def)
  then obtain xs ys where due: "due_timers s = xs @ (D, EndAnimation) # ys"
    by (meson split_list)
  have "tm_ok (due_timers s @ timers s0) (next_node s) True"
    unfolding due_timers_def s0_def using tm_ok_due_split [OF c(5)] by simp
  then have "tm_ok (xs @ (D, EndAnimation) # (ys @ timers s0)) (next_node s) True"
    by (simp add: due)
  note parts = tm_ok_around_end [OF this]
  have xs: "\<forall>t\<in>set xs. snd t \<noteq> EndAnimation"
    and ys: "\<forall>t\<in>set ys. snd t \<noteq> EndAnimation"
    and ids: "\<forall>t\<in>set ys. \<forall>i. snd t = RemoveAnnouncement i \<longrightarrow> i < next_node s"
    using parts by auto
  define sA where "sA = fold ?F xs s0"
  define sB where "sB = uncaught (fire EndAnimation sA)"
  define sC where "sC = fold ?F ys sB"
  have run: "run_timers s = sC"
    by (simp add: run_timers_def due sA_def sB_def sC_def s0_def del: fire.simps)
  have "ordinary s0 sA"
    unfolding sA_def by (intro ordinary_fold_fire ordinary_refl xs)
  then have A: "playAnimationBtn sA = playAnimationBtn s" "next_node s \<le> next_node sA"
    by (simp_all add: ordinary_def s0_def)
  obtain b where b: "playAnimationBtn s = Some b" "disabled b"
    using c(2) by auto
  have B: "\<not> isAnimating sB"
    "playAnimationBtn sB = Some (b\<lparr>disabled := False, btn_loading := False\<rparr>)"
    "(next_node sA, str ''Cake animation completed'') \<in> set (announcements sB)"
    unfolding sB_def using A(1) b(1)
    by (simp_all add: fire_EndAnimation_fields del: fire.simps)
  have "ordinary sB sC"
    unfolding sC_def by (intro ordinary_fold_fire ordinary_refl ys)
  then have C: "\<not> isAnimating sC"
    "playAnimationBtn sC = Some (b\<lparr>disabled := False, btn_loading := False\<rparr>)"
    using B(1,2) by (simp_all add: ordinary_def)
  have "\<forall>t\<in>set ys. snd t \<noteq> RemoveAnnouncement (next_node sA)"
    using ids A(2) by auto
  then have "(next_node sA, str ''Cake animation completed'') \<in> set (announcements sC)"
    unfolding sC_def using B(3) by (rule fold_fire_keeps_announcement)
  then have "str ''Cake animation completed'' \<in> snd ` set (announcements sC)"
    by force
  with C show ?thesis
    unfolding run by simp
qed

section \<open>The cooldown of the replay\<close>

text \<open>
  C7: let \<^verbatim>\<open>replayAnimation\<close> run at time \<open>t\<close> on a reachable page that is not
  animating and has the cake and the play button. It returns normally with
  \<^verbatim>\<open>isAnimating\<close> true and the button disabled. Whatever events follow, as long as the
  clock is below \<open>t + 4000\<close> \<^verbatim>\<open>isAnimating\<close> stays true and the button stays disabled:
  nothing ends the cooldown early. When the clock passes from below \<open>t + 4000\<close> to
  \<open>t + 4000\<close> or more, the next turn of the event loop ends it: \<^verbatim>\<open>isAnimating\<close> is
  false, the button is enabled and \<^verbatim>\<open>Cake animation completed\<close> is in the live region.
\<close>

theorem replay_cooldown:
  assumes "s = run evs0 (page_load d)"
    and "\<not> isAnimating s" and "cake s = Some c" and "playAnimationBtn s = Some b"
    and "s1 = snd (replayAnimation s)"
  shows "fst (replayAnimation s) = None \<and> isAnimating s1 \<and>
     map_option disabled (playAnimationBtn s1) = Some True \<and>
     (\<forall>evs. clock (run evs s1) < clock s + 4000 \<longrightarrow>
        isAnimating (run evs s1) \<and>
        map_option disabled (playAnimationBtn (run evs s1)) = Some True) \<and>
     (\<forall>evs n. clock (run evs s1) < clock s + 4000 \<and> clock s + 4000 \<le> clock (run evs s1) + n \<longrightarrow>
        \<not> isAnimating (run (evs @ [Elapse n, RunTimers]) s1) \<and>
        map_option disabled (playAnimationBtn (run (evs @ [Elapse n, RunTimers]) s1))
          = Some False \<and>
        str ''Cake animation completed''
          \<in> snd ` set (announcements (run (evs @ [Elapse n, RunTimers]) s1)))"
proof -
  have "timers_inv s"
    unfolding assms(1) by (intro timers_inv_run timers_inv_page_load)
  then have start: "cooling (clock s + 4000) s1"
    unfolding assms(5) using assms(2-4) by (rule cooling_start)
  have during: "cooling (clock s + 4000) (run evs s1)"
    if "clock (run evs s1) < clock s + 4000" for evs
    using start that by (rule cooling_run)
  have "\<not> isAnimating (run (evs @ [Elapse n, RunTimers]) s1) \<and>
        map_option disabled (playAnimationBtn (run (evs @ [Elapse n, RunTimers]) s1))
          = Some False \<and>
        str ''Cake animation completed''
          \<in> snd ` set (announcements (run (evs @ [Elapse n, RunTimers]) s1))"
    if "clock (run evs s1) < clock s + 4000" "clock s + 4000 \<le> clock (run evs s1) + n"
    for evs n
  proof -
    have "cooling (clock s + 4000) (elapse n (run evs s1))"
      using coolingD [OF during [OF that(1)]] by (intro coolingI) (simp_all add: elapse_def)
    moreover have "clock s + 4000 \<le> clock (elapse n (run evs s1))"
      using that(2) by (simp add: elapse_def)
    ultimately have "\<not> isAnimating (run_timers (elapse n (run evs s1))) \<and>
       map_option disabled (playAnimationBtn (run_timers (elapse n (run evs s1)))) = Some False \<and>
       str ''Cake animation completed''
         \<in> snd ` set (announcements (run_timers (elapse n (run evs s1))))"
      by (rule cooling_finish)
    then show ?thesis by (simp add: run_def)
  qed
  moreover have "fst (replayAnimation s) = None"
    using replayAnimation_started(1) [OF assms(2-4)] .
  ultimately show ?thesis
    using coolingD(1,2) [OF start] coolingD(1,2) [OF during] by blast
qed

lemma loaded_sample:
  "\<not> isAnimating (page_load sample_document)"
  "cake (page_load sample_document) = Some [0, 0, 0]"
  "playAnimationBtn (page_load sample_document) = Some \<lparr>disabled = False, btn_loading = False\<rparr>"
  "clock (page_load sample_document) = 0"
  by (simp_all add: sample_defs script_defs)

theorem replay_cooldown_witness:
  "\<not> isAnimating (page_load sample_document) \<and>
   isAnimating (run [Elapse 1000, KeyDown KeyR True, ClickCancel, Elapse 2999]
     (snd (replayAnimation (page_load sample_document)))) \<and>
   clock (run [Elapse 1000, KeyDown KeyR True, ClickCancel, Elapse 2999]
     (snd (replayAnimation (page_load sample_document)))) = 3999 \<and>
   \<not> isAnimating (run ([Elapse 1000, KeyDown KeyR True, ClickCancel, Elapse 2999] @ [Elapse 1, RunTimers])
     (snd (replayAnimation (page_load sample_document)))) \<and>
   map_option disabled (playAnimationBtn
     (run ([Elapse 1000, KeyDown KeyR True, ClickCancel, Elapse 2999] @ [Elapse 1, RunTimers])
       (snd (replayAnimation (page_load sample_document))))) = Some False"
proof -
  let ?s1 = "snd (replayAnimation (page_load sample_document))"
  let ?evs = "[Elapse 1000, KeyDown KeyR True, ClickCancel, Elapse 2999]"
  have loaded: "page_load sample_document = run [] (page_load sample_document)"
    by (simp add: run_def)
  have c1: "clock ?s1 = 0"
    using replayAnimation_started(4) [OF loaded_sample(1-3)] loaded_sample(4) by simp
  have c: "clock (run ?evs ?s1) = 3999"
    by (simp add: run_def clock_dispatch c1 del: dispatch.simps)
  note T = replay_cooldown [OF loaded loaded_sample(1-3) refl]
  from T have "\<forall>evs. clock (run evs ?s1) < clock (page_load sample_document) + 4000 \<longrightarrow>
      isAnimating (run evs ?s1)"
    by blast
  from this [rule_format, of ?evs] have during: "isAnimating (run ?evs ?s1)"
    by (simp add: c loaded_sample(4))
  from T have "\<forall>evs n. clock (run evs ?s1) < clock (page_load sample_document) + 4000 \<and>
      clock (page_load sample_document) + 4000 \<le> clock (run evs ?s1) + n \<longrightarrow>
      \<not> isAnimating (run (evs @ [Elapse n, RunTimers]) ?s1) \<and>
      map_option disabled (playAnimationBtn (run (evs @ [Elapse n, RunTimers]) ?s1)) = Some False"
    by blast
  from this [rule_format, of ?evs 1]
  have "\<not> isAnimating (run (?evs @ [Elapse 1, RunTimers]) ?s1) \<and>
      map_option disabled (playAnimationBtn (run (?evs @ [Elapse 1, RunTimers]) ?s1)) = Some False"
    by (simp add: c loaded_sample(4))
  with during c loaded_sample(1) show ?thesis
    by blast
qed

end
